theory Spec2Isabelle
  imports Main "HOL-Library.Char_ord" "HOL-Library.List_Lexorder" "HOL-Library.Sublist"
    "HOL-Library.Word"
begin

section \<open>Common values\<close>

text \<open>
  Go errors are values carrying a message; the model keeps the kind of failure and the
  text that identifies its origin.
\<close>

datatype Error =
    MalformedDigest string
  | ParseError string
  | IOError string
  | RpcError string
  | Errorf string
  | MissingNode string
  | TooDeep
  | Panic string

type_synonym bytes = "char list"

text \<open>A \<open>time.Duration\<close> is a signed 64-bit count of nanoseconds.\<close>

type_synonym Duration = "64 word"

section \<open>go/pkg/flags: NewClientFromFlags\<close>

text \<open>
  The options handed to \<open>client.NewClient\<close>. The caller's own options are opaque
  (\<open>UserOpt\<close>); the two that \<open>NewClientFromFlags\<close> appends are \<open>client.CASConcurrency\<close>
  and \<open>client.RPCTimeouts\<close>.
\<close>

datatype 'o Opt =
    UserOpt 'o
  | CASConcurrency int
  | RPCTimeouts "string \<Rightarrow> Duration option"

record DialParams =
  Service :: string
  CASService :: string
  CredFile :: string
  UseApplicationDefault :: bool
  UseComputeEngine :: bool
  TransportCredsOnly :: bool
  TLSServerName :: string
  CertPool :: "bytes list"
  MaxConcurrentRequests :: "32 word"
  MaxConcurrentStreams :: "32 word"

text \<open>The package-level flag variables of \<open>flags.go\<close>, as one record.\<close>

record Flags =
  fCredFile :: string
  fUseApplicationDefaultCreds :: bool
  fUseGCECredentials :: bool
  fUseRPCCredentials :: bool
  fService :: string
  fCASService :: string
  fInstance :: string
  fCASConcurrency :: int
  fMaxConcurrentRequests :: "64 word"
  fMaxConcurrentStreams :: "64 word"
  fTLSServerName :: string
  fTLSCACert :: string
  fRPCTimeouts :: "string \<Rightarrow> string option"

text \<open>
  What \<open>NewClientFromFlags\<close> uses from outside \<open>flags.go\<close>: the table
  \<open>client.DefaultRPCTimeouts\<close>, \<open>time.ParseDuration\<close>, \<open>ioutil.ReadFile\<close>,
  \<open>CertPool.AppendCertsFromPEM\<close> (whether the PEM data holds a certificate) and
  \<open>client.NewClient\<close>. They are parameters of the model.
\<close>

record ('o, 'c) FlagsEnv =
  DefaultRPCTimeouts :: "string \<Rightarrow> Duration option"
  ParseDuration :: "string \<Rightarrow> Error + Duration"
  ReadFile :: "string \<Rightarrow> Error + bytes"
  AppendCertsFromPEM :: "bytes \<Rightarrow> bool"
  NewClient :: "string \<Rightarrow> DialParams \<Rightarrow> 'o Opt list \<Rightarrow> Error + 'c"

text \<open>
  A Go \<open>range\<close> over a map visits every key once, in an order the runtime chooses. The
  model takes that order as a list of the keys: \<open>enumerates ks m\<close> says that \<open>ks\<close> is such
  an order for the map \<open>m\<close>.
\<close>

definition enumerates :: "'k list \<Rightarrow> ('k \<Rightarrow> 'v option) \<Rightarrow> bool" where
  "enumerates ks m \<longleftrightarrow> distinct ks \<and> set ks = dom m"

text \<open>Lines 75 to 77: \<open>for rpc, d := range client.DefaultRPCTimeouts { timeouts[rpc] = d }\<close>.\<close>

fun copyDefaults ::
  "(string \<Rightarrow> Duration option) \<Rightarrow> string list \<Rightarrow> (string \<Rightarrow> Duration option)
    \<Rightarrow> (string \<Rightarrow> Duration option)" where
  "copyDefaults defaults [] timeouts = timeouts"
| "copyDefaults defaults (rpc # ks) timeouts =
     (case defaults rpc of
        None \<Rightarrow> copyDefaults defaults ks timeouts
      | Some d \<Rightarrow> copyDefaults defaults ks (timeouts(rpc \<mapsto> d)))"

text \<open>
  Lines 79 to 85: the overrides are parsed one at a time and written over the copied
  defaults; the first string that does not parse ends the function with that error.
\<close>

fun applyOverrides ::
  "(string \<Rightarrow> Error + Duration) \<Rightarrow> (string \<Rightarrow> string option) \<Rightarrow> string list
    \<Rightarrow> (string \<Rightarrow> Duration option) \<Rightarrow> Error + (string \<Rightarrow> Duration option)" where
  "applyOverrides parse flags [] timeouts = Inr timeouts"
| "applyOverrides parse flags (rpc # ks) timeouts =
     (case flags rpc of
        None \<Rightarrow> applyOverrides parse flags ks timeouts
      | Some s \<Rightarrow>
          (case parse s of
             Inl err \<Rightarrow> Inl err
           | Inr d \<Rightarrow> applyOverrides parse flags ks (timeouts(rpc \<mapsto> d))))"

text \<open>Lines 88 to 97: the certificate pool, filled from \<open>--tls_ca_cert\<close> when given.\<close>

definition loadCertPool :: "('o, 'c) FlagsEnv \<Rightarrow> Flags \<Rightarrow> Error + bytes list" where
  "loadCertPool env fl =
     (if fTLSCACert fl \<noteq> [] then
        (case ReadFile env (fTLSCACert fl) of
           Inl err \<Rightarrow> Inl err
         | Inr ca \<Rightarrow>
             if AppendCertsFromPEM env ca then Inr [ca]
             else Inl (Errorf (''failed to load TLS CA certificates from '' @ fTLSCACert fl)))
      else Inr [])"

definition dialParams :: "Flags \<Rightarrow> bytes list \<Rightarrow> DialParams" where
  "dialParams fl certPool =
     \<lparr> Service = fService fl,
       CASService = fCASService fl,
       CredFile = fCredFile fl,
       UseApplicationDefault = fUseApplicationDefaultCreds fl,
       UseComputeEngine = fUseGCECredentials fl,
       TransportCredsOnly = (\<not> fUseRPCCredentials fl),
       TLSServerName = fTLSServerName fl,
       CertPool = certPool,
       MaxConcurrentRequests = ucast (fMaxConcurrentRequests fl),
       MaxConcurrentStreams = ucast (fMaxConcurrentStreams fl) \<rparr>"

text \<open>Lines 88 to 109, for the options \<open>opts\<close> built so far.\<close>

definition connect ::
  "('o, 'c) FlagsEnv \<Rightarrow> Flags \<Rightarrow> 'o Opt list \<Rightarrow> Error + 'c" where
  "connect env fl opts =
     (case loadCertPool env fl of
        Inl err \<Rightarrow> Inl err
      | Inr certPool \<Rightarrow> NewClient env (fInstance fl) (dialParams fl certPool) opts)"

text \<open>
  \<open>NewClientFromFlags\<close>. \<open>dks\<close> and \<open>ks\<close> are the orders in which the two \<open>range\<close> loops
  visit \<open>client.DefaultRPCTimeouts\<close> and \<open>RPCTimeouts\<close>.
\<close>

definition NewClientFromFlags ::
  "('o, 'c) FlagsEnv \<Rightarrow> Flags \<Rightarrow> string list \<Rightarrow> string list \<Rightarrow> 'o Opt list \<Rightarrow> Error + 'c"
  where
  "NewClientFromFlags env fl dks ks opts0 =
     (let opts = opts0 @ [CASConcurrency (fCASConcurrency fl)] in
      if dom (fRPCTimeouts fl) \<noteq> {} then
        (case applyOverrides (ParseDuration env) (fRPCTimeouts fl) ks
                (copyDefaults (DefaultRPCTimeouts env) dks Map.empty) of
           Inl err \<Rightarrow> Inl err
         | Inr timeouts \<Rightarrow> connect env fl (opts @ [RPCTimeouts timeouts]))
      else connect env fl opts)"

text \<open>
  The map the claim describes: every default entry, with the overridden keys replaced by
  the parsed override.
\<close>

definition mergedTimeouts ::
  "('o, 'c) FlagsEnv \<Rightarrow> Flags \<Rightarrow> string \<Rightarrow> Duration option" where
  "mergedTimeouts env fl rpc =
     (case fRPCTimeouts fl rpc of
        None \<Rightarrow> DefaultRPCTimeouts env rpc
      | Some s \<Rightarrow> (case ParseDuration env s of Inl err \<Rightarrow> None | Inr d \<Rightarrow> Some d))"

text \<open>
  A concrete configuration for the examples: two default timeouts, a duration parser that
  knows three strings, and a \<open>NewClient\<close> that returns the options it was given.
\<close>

definition exDefaults :: "string \<Rightarrow> Duration option" where
  "exDefaults = [''default'' \<mapsto> 20000000000, ''GetActionResult'' \<mapsto> 500000000]"

definition exParse :: "string \<Rightarrow> Error + Duration" where
  "exParse s =
     (if s = ''0'' then Inr 0
      else if s = ''10s'' then Inr 10000000000
      else if s = ''500ms'' then Inr 500000000
      else Inl (ParseError s))"

definition exFlagsEnv :: "(unit, unit Opt list) FlagsEnv" where
  "exFlagsEnv =
     \<lparr> DefaultRPCTimeouts = exDefaults,
       ParseDuration = exParse,
       ReadFile = (\<lambda>name. Inl (IOError name)),
       AppendCertsFromPEM = (\<lambda>pem. False),
       NewClient = (\<lambda>instance params opts. Inr opts) \<rparr>"

definition exFlags :: "(string \<Rightarrow> string option) \<Rightarrow> Flags" where
  "exFlags timeouts =
     \<lparr> fCredFile = [], fUseApplicationDefaultCreds = False, fUseGCECredentials = False,
       fUseRPCCredentials = True, fService = ''localhost:8790'', fCASService = [],
       fInstance = [], fCASConcurrency = 500, fMaxConcurrentRequests = 25,
       fMaxConcurrentStreams = 25, fTLSServerName = [], fTLSCACert = [],
       fRPCTimeouts = timeouts \<rparr>"


section \<open>go/pkg/chunker: the Chunker\<close>

text \<open>
  \<open>chunker.go\<close> is not among the sources; only its build file is. The definitions of this
  section follow section 4.2 of the specification.
\<close>

text \<open>
  Modelled from the spec: the errors of the chunk protocol, in the taxonomy of section 7.
\<close>

datatype ChunkError =
    InvalidConfig
  | ChunkerExhausted
  | SeekError
  | OutOfOrderChunk
  | IncompleteBlob

text \<open>
  Modelled from the spec: the \<open>Chunk\<close> of section 3, missing from the sources, with its
  offset in the blob and its payload; its length is that of the payload.
\<close>

record Chunk =
  chunkOffset :: nat
  payload :: bytes

text \<open>
  Modelled from the spec: the Chunker of section 4.2, over an in-memory \<open>BlobSource\<close>. Its
  state is the source, the chunk size, the inline threshold of the configuration, the
  offset of the next chunk and whether a chunk has been produced since the start.
\<close>

record Chunker =
  source :: bytes
  chunkSize :: nat
  inlineThreshold :: nat
  offset :: nat
  started :: bool

text \<open>
  Modelled from the spec: \<open>forSource(source, chunkSize)\<close>, "chunkSize must be a positive
  integer; fails with InvalidConfig otherwise".
\<close>

definition forSource :: "nat \<Rightarrow> bytes \<Rightarrow> nat \<Rightarrow> ChunkError + Chunker" where
  "forSource threshold src csize =
     (if csize = 0 then Inl InvalidConfig
      else Inr \<lparr> source = src, chunkSize = csize, inlineThreshold = threshold,
                 offset = 0, started = False \<rparr>)"

text \<open>
  Modelled from the spec: "single small blobs (size below a configured inline threshold)
  are represented as exactly one chunk equal to the whole content".
\<close>

definition small :: "Chunker \<Rightarrow> bool" where
  "small c \<longleftrightarrow> length (source c) < inlineThreshold c"

text \<open>
  Modelled from the spec: \<open>hasNext()\<close>. Bytes are left, or the single chunk of a small
  blob has not been produced yet.
\<close>

definition hasNext :: "Chunker \<Rightarrow> bool" where
  "hasNext c \<longleftrightarrow> offset c < length (source c) \<or> (small c \<and> \<not> started c)"

text \<open>
  Modelled from the spec: \<open>next()\<close> "produces chunks in strictly increasing offset order;
  the final chunk's offset+length == totalSize; calling next() after exhaustion fails
  with ChunkerExhausted". A chunk holds at most \<open>chunkSize\<close> bytes, except the single
  chunk of a small blob, which is the whole content.
\<close>

definition nextChunk :: "Chunker \<Rightarrow> ChunkError + Chunk \<times> Chunker" where
  "nextChunk c =
     (if \<not> hasNext c then Inl ChunkerExhausted
      else if small c \<and> \<not> started c then
        Inr (\<lparr> chunkOffset = 0, payload = source c \<rparr>,
             c \<lparr> offset := length (source c), started := True \<rparr>)
      else
        (let data = take (chunkSize c) (drop (offset c) (source c)) in
         Inr (\<lparr> chunkOffset = offset c, payload = data \<rparr>,
              c \<lparr> offset := offset c + length data, started := True \<rparr>)))"

text \<open>
  Modelled from the spec: the chunk sequence of a Chunker, missing from the sources, as
  the consumer's loop \<open>while hasNext() { next() }\<close> collects it. The loop need not end for
  an arbitrary state (a chunk size of zero never advances), so not returning is the value
  \<open>None\<close>.
\<close>

partial_function (option) drain ::
  "Chunker \<Rightarrow> Chunk list \<Rightarrow> (ChunkError + Chunk list) option" where
  "drain c acc =
     (if hasNext c then
        (case nextChunk c of
           Inl err \<Rightarrow> Some (Inl err)
         | Inr (ch, c') \<Rightarrow> drain c' (acc @ [ch]))
      else Some (Inr acc))"

text \<open>
  Modelled from the spec: \<open>chunk(source, size)\<close> of section 8, the whole chunk sequence of
  a blob.
\<close>

definition chunk :: "nat \<Rightarrow> bytes \<Rightarrow> nat \<Rightarrow> (ChunkError + Chunk list) option" where
  "chunk threshold src csize =
     (case forSource threshold src csize of
        Inl err \<Rightarrow> Some (Inl err)
      | Inr c \<Rightarrow> drain c [])"

text \<open>
  Modelled from the spec: reassembly "accepts chunks in increasing-offset order
  (out-of-order or overlapping chunks fail with OutOfOrderChunk) and writes them to a
  sink; the sink's accumulated size must equal the originally declared total size on
  completion, or it fails with IncompleteBlob". The sink holds the bytes written and the
  end of the last chunk it accepted.
\<close>

record Sink =
  written :: bytes
  sinkEnd :: nat

text \<open>
  Modelled from the spec: one chunk offered to the sink. A chunk that starts before the
  end of the last one accepted is out of order or overlaps.
\<close>

definition accept :: "Sink \<Rightarrow> Chunk \<Rightarrow> ChunkError + Sink" where
  "accept sink ch =
     (if chunkOffset ch < sinkEnd sink then Inl OutOfOrderChunk
      else Inr \<lparr> written = written sink @ payload ch,
                 sinkEnd = chunkOffset ch + length (payload ch) \<rparr>)"

text \<open>
  Modelled from the spec: the chunks are written in the order given; the first one
  refused ends the reassembly. At the end the accumulated size is compared with the
  declared total.
\<close>

fun feed :: "Sink \<Rightarrow> Chunk list \<Rightarrow> ChunkError + Sink" where
  "feed sink [] = Inr sink"
| "feed sink (ch # chs) =
     (case accept sink ch of Inl err \<Rightarrow> Inl err | Inr sink' \<Rightarrow> feed sink' chs)"

definition reassemble :: "nat \<Rightarrow> Chunk list \<Rightarrow> ChunkError + bytes" where
  "reassemble declared chs =
     (case feed \<lparr> written = [], sinkEnd = 0 \<rparr> chs of
        Inl err \<Rightarrow> Inl err
      | Inr sink \<Rightarrow>
          if length (written sink) = declared then Inr (written sink) else Inl IncompleteBlob)"


section \<open>Digests\<close>

text \<open>
  \<open>digest.Digest\<close> and the protocol's \<open>repb.Digest\<close> message both hold a hash and a
  size in bytes (an \<open>int64\<close>); one record stands for both. A \<open>*repb.Digest\<close> that may be
  \<open>nil\<close> is a \<open>Digest option\<close>.
\<close>

record Digest =
  Hash :: string
  Size :: int

text \<open>Decimal notation, as \<open>%d\<close> and \<open>%v\<close> print an integer.\<close>

fun showNat :: "nat \<Rightarrow> string" where
  "showNat n =
     (if n < 10 then [''0123456789'' ! n]
      else showNat (n div 10) @ [''0123456789'' ! (n mod 10)])"

definition showInt :: "int \<Rightarrow> string" where
  "showInt i = (if i < 0 then CHR ''-'' # showNat (nat (- i)) else showNat (nat i))"

text \<open>
  The canonical text of a digest, \<open><hash>/<size>\<close> (section 6 of the specification); it
  is what \<open>%v\<close> prints for a \<open>digest.Digest\<close>.
\<close>

definition digestString :: "Digest \<Rightarrow> string" where
  "digestString dg = Hash dg @ ''/'' @ showInt (Size dg)"

text \<open>
  Modelled from the spec: \<open>Digest.parse\<close> of section 4.1, which "fails with
  MalformedDigest when the string is not hash/size in the expected hash-length and
  numeric-size form". The package \<open>go/pkg/digest\<close> is not among the sources; the
  operations below take its parser as a parameter, and the examples use this one with
  the hash length of SHA-256.
\<close>

definition isHexDigit :: "char \<Rightarrow> bool" where
  "isHexDigit c \<longleftrightarrow> c \<in> set ''0123456789abcdef''"

definition isDigit :: "char \<Rightarrow> bool" where
  "isDigit c \<longleftrightarrow> c \<in> set ''0123456789''"

definition digitValue :: "char \<Rightarrow> nat" where
  "digitValue c = length (takeWhile (\<lambda>d. d \<noteq> c) ''0123456789'')"

definition readNat :: "string \<Rightarrow> nat" where
  "readNat s = foldl (\<lambda>n c. 10 * n + digitValue c) 0 s"

definition parseDigest :: "nat \<Rightarrow> string \<Rightarrow> Error + Digest" where
  "parseDigest hashLength s =
     (let h = takeWhile (\<lambda>c. c \<noteq> CHR ''/'') s;
          rest = dropWhile (\<lambda>c. c \<noteq> CHR ''/'') s
      in case rest of
           [] \<Rightarrow> Inl (MalformedDigest s)
         | slash # sz \<Rightarrow>
             if length h = hashLength \<and> list_all isHexDigit h \<and> sz \<noteq> [] \<and> list_all isDigit sz
             then Inr \<lparr> Hash = h, Size = int (readNat sz) \<rparr>
             else Inl (MalformedDigest s))"

section \<open>Paths\<close>

text \<open>\<open>strings.Join\<close>.\<close>

fun joinStrings :: "string list \<Rightarrow> string \<Rightarrow> string" where
  "joinStrings [] sep = []"
| "joinStrings [s] sep = s"
| "joinStrings (s # rest) sep = s @ sep @ joinStrings rest sep"

text \<open>The elements of a path between its slashes, the empty ones too.\<close>

fun splitPath :: "string \<Rightarrow> string list" where
  "splitPath [] = [[]]"
| "splitPath (c # cs) =
     (if c = CHR ''/'' then [] # splitPath cs
      else (case splitPath cs of
              [] \<Rightarrow> [[c]]
            | x # xs \<Rightarrow> (c # x) # xs))"

text \<open>
  \<open>filepath.Clean\<close>, by its documented rules: multiple slashes count as one, a \<open>.\<close>
  element is dropped, a \<open>..\<close> element removes the element before it unless that is
  \<open>..\<close> too, a \<open>..\<close> at the root is dropped, and the empty result is \<open>.\<close>. \<open>pushElement\<close>
  adds one element to the elements kept so far.
\<close>

definition pushElement :: "bool \<Rightarrow> string list \<Rightarrow> string \<Rightarrow> string list" where
  "pushElement rooted kept e =
     (if e = [] \<or> e = ''.'' then kept
      else if e = ''..'' then
        (if kept \<noteq> [] \<and> last kept \<noteq> ''..'' then butlast kept
         else if rooted then kept
         else kept @ [e])
      else kept @ [e])"

definition Clean :: "string \<Rightarrow> string" where
  "Clean p =
     (let rooted = (take 1 p = ''/'');
          body = joinStrings (foldl (pushElement rooted) [] (splitPath p)) ''/''
      in if rooted then ''/'' @ body
         else if body = [] then ''.''
         else body)"

text \<open>
  \<open>filepath.Join\<close> of two elements: the elements from the first one that is not empty
  are joined with a slash and cleaned; the result is empty when both are empty.
\<close>

definition filepathJoin :: "string \<Rightarrow> string \<Rightarrow> string" where
  "filepathJoin a b =
     (if a \<noteq> [] then Clean (a @ ''/'' @ b)
      else if b \<noteq> [] then Clean b
      else [])"

section \<open>The local file system\<close>

text \<open>
  The part of the operating system the tool touches through \<open>os\<close> and \<open>ioutil\<close>: a map
  from cleaned, slash-separated paths to files and directories. The root, the working
  directory and the directories above it are not in the map; they always exist.
  Permissions and links are not modelled, and a relative path is not related to the
  absolute path of the same file. \<open>underDir d k\<close> says that \<open>k\<close> is \<open>d\<close> or lies inside
  the directory \<open>d\<close>.
\<close>

datatype FNode = FileNode bytes | DirNode

type_synonym FS = "string \<Rightarrow> FNode option"

definition underDir :: "string \<Rightarrow> string \<Rightarrow> bool" where
  "underDir d k \<longleftrightarrow> k = d \<or> prefix (if d = ''/'' then d else d @ ''/'') k"

definition implicitDir :: "string \<Rightarrow> bool" where
  "implicitDir k \<longleftrightarrow>
     k = ''/'' \<or> k = ''.'' \<or> (k \<noteq> [] \<and> list_all (\<lambda>e. e = ''..'') (splitPath k))"

text \<open>
  The directory that holds a path: \<open>None\<close> for a path without a slash (it is looked up in
  the working directory), the text before the last slash otherwise, empty for an entry of
  the root directory.
\<close>

definition parentDir :: "string \<Rightarrow> string option" where
  "parentDir p =
     (if CHR ''/'' \<in> set p
      then Some (rev (tl (dropWhile (\<lambda>c. c \<noteq> CHR ''/'') (rev p))))
      else None)"

definition parentExists :: "FS \<Rightarrow> string \<Rightarrow> bool" where
  "parentExists f p =
     (case parentDir p of
        None \<Rightarrow> True
      | Some d \<Rightarrow> d = [] \<or> implicitDir d \<or> f d = Some DirNode)"

text \<open>
  \<open>os.RemoveAll\<close>. The empty path is accepted and nothing is done; a path that is \<open>.\<close>
  or ends in \<open>/.\<close> is refused; otherwise the path is resolved, and it and everything
  inside it is removed. The root itself cannot be removed.
\<close>

definition endsWithDot :: "string \<Rightarrow> bool" where
  "endsWithDot p \<longleftrightarrow> p = ''.'' \<or> suffix ''/.'' p"

definition RemoveAll :: "string \<Rightarrow> FS \<Rightarrow> Error option \<times> FS" where
  "RemoveAll p f =
     (if p = [] then (None, f)
      else if endsWithDot p then (Some (IOError p), f)
      else (if Clean p = ''/'' then Some (IOError p) else None,
            (\<lambda>k. if underDir (Clean p) k then None else f k)))"

text \<open>
  \<open>os.Mkdir\<close>: creates one directory at the resolved path; it fails when the path is
  empty, when it exists already or when its parent is not a directory.
\<close>

definition Mkdir :: "string \<Rightarrow> FS \<Rightarrow> Error option \<times> FS" where
  "Mkdir p f =
     (let k = Clean p
      in if p \<noteq> [] \<and> \<not> implicitDir k \<and> f k = None \<and> parentExists f k
         then (None, f(k \<mapsto> DirNode))
         else (Some (IOError p), f))"

text \<open>
  A destination given in clean form: the path is as \<open>filepath.Clean\<close> leaves it, it is
  neither the root nor the working directory, and it does not lead upwards.
\<close>

definition cleanPath :: "string \<Rightarrow> bool" where
  "cleanPath p \<longleftrightarrow>
     p \<noteq> [] \<and> Clean p = p \<and> p \<noteq> ''/'' \<and> \<not> endsWithDot p \<and> ''..'' \<notin> set (splitPath p)"

text \<open>
  The operations on files. The tool calls them with a path that \<open>filepath.Join\<close> or
  \<open>ioutil.TempFile\<close> has produced, which is clean.
\<close>

text \<open>\<open>ioutil.WriteFile\<close>: creates the file or replaces its contents.\<close>

definition WriteFile :: "string \<Rightarrow> bytes \<Rightarrow> FS \<Rightarrow> Error option \<times> FS" where
  "WriteFile p content f =
     (if p \<noteq> [] \<and> f p \<noteq> Some DirNode \<and> parentExists f p then (None, f(p \<mapsto> FileNode content))
      else (Some (IOError p), f))"

text \<open>\<open>ioutil.ReadFile\<close>.\<close>

definition ReadFileFS :: "string \<Rightarrow> FS \<Rightarrow> Error + bytes" where
  "ReadFileFS p f =
     (case f p of
        Some (FileNode content) \<Rightarrow> Inr content
      | Some DirNode \<Rightarrow> Inl (IOError p)
      | None \<Rightarrow> Inl (IOError p))"

text \<open>\<open>os.Remove\<close>: removes a file or an empty directory.\<close>

definition Remove :: "string \<Rightarrow> FS \<Rightarrow> Error option \<times> FS" where
  "Remove p f =
     (case f p of
        Some (FileNode content) \<Rightarrow> (None, f(p := None))
      | Some DirNode \<Rightarrow>
          if \<exists>k. f k \<noteq> None \<and> prefix (p @ ''/'') k then (Some (IOError p), f)
          else (None, f(p := None))
      | None \<Rightarrow> (Some (IOError p), f))"

section \<open>Observable effects\<close>

text \<open>
  What an operation did, in order: its calls on the disk, its remote calls, what it wrote
  to the log (\<open>log.Infof\<close>, \<open>log.Errorf\<close>) and to the caller's \<open>outerr.OutErr\<close>. A
  write of a file is recorded with the error it returned.
\<close>

datatype Event =
    EvRemoveAll string
  | EvMkdir string
  | EvTempFile
  | EvRemove string
  | EvWriteFile string "Error option"
  | EvReadFile string
  | EvRpc string
  | EvInfo string
  | EvError string
  | EvWriteErr string

text \<open>Disk and network activity, as opposed to messages.\<close>

fun isActivity :: "Event \<Rightarrow> bool" where
  "isActivity (EvInfo msg) = False"
| "isActivity (EvError msg) = False"
| "isActivity (EvWriteErr msg) = False"
| "isActivity ev = True"

record World =
  fs :: FS
  trace :: "Event list"

definition emit :: "Event \<Rightarrow> World \<Rightarrow> World" where
  "emit ev w = w \<lparr> trace := trace w @ [ev] \<rparr>"

definition errorText :: "Error \<Rightarrow> string" where
  "errorText err =
     (case err of
        MalformedDigest s \<Rightarrow> s
      | ParseError s \<Rightarrow> s
      | IOError s \<Rightarrow> s
      | RpcError s \<Rightarrow> s
      | Errorf s \<Rightarrow> s
      | MissingNode s \<Rightarrow> s
      | TooDeep \<Rightarrow> ''directory tree too deep''
      | Panic s \<Rightarrow> s)"


section \<open>go/pkg/tree: directory nodes and FlattenTree\<close>

text \<open>
  The package \<open>go/pkg/tree\<close> and the protocol messages are not among the sources. The
  definitions of this section follow sections 3 and 4.4 of the specification.
\<close>

text \<open>
  Modelled from the spec: the protocol's directory message, missing from the sources. A
  \<open>DirectoryNode\<close> is an "ordered set of named children, each either a file descriptor
  (digest + executable flag), a subdirectory digest, or a symlink target string".
\<close>

datatype Child =
    FileChild Digest bool
  | DirChild Digest
  | SymlinkChild string

type_synonym DirectoryNode = "(string \<times> Child) list"

text \<open>
  Modelled from the spec: the protocol's \<open>Tree\<close> message, missing from the sources, with
  the two fields that \<open>tool.go\<close> fills: a root node and the nodes below it.
\<close>

record Tree =
  Root :: DirectoryNode
  Children :: "DirectoryNode list"

text \<open>
  Modelled from the spec: \<open>tree.Output\<close>, missing from the sources, with the three fields
  that \<open>tool.go\<close> reads. It is the \<open>FlatEntry\<close> of the specification, of "kind file,
  empty-directory or symlink", with a "digest (file/dir) or target (symlink)": a file has
  its digest, an empty directory has the flag and its digest, a symlink has its target and
  no digest.
\<close>

record Output =
  Digest :: Digest
  IsEmptyDirectory :: bool
  SymlinkTarget :: string

text \<open>
  Modelled from the spec: the entries of the three kinds. The digest of a symlink entry is
  the zero value of the field.
\<close>

definition zeroDigest :: Digest where
  "zeroDigest = \<lparr> Hash = [], Size = 0 \<rparr>"

definition fileOutput :: "Digest \<Rightarrow> Output" where
  "fileOutput dg = \<lparr> Digest = dg, IsEmptyDirectory = False, SymlinkTarget = [] \<rparr>"

definition emptyDirOutput :: "Digest \<Rightarrow> Output" where
  "emptyDirOutput dg = \<lparr> Digest = dg, IsEmptyDirectory = True, SymlinkTarget = [] \<rparr>"

definition symlinkOutput :: "string \<Rightarrow> Output" where
  "symlinkOutput target =
     \<lparr> Digest = zeroDigest, IsEmptyDirectory = False, SymlinkTarget = target \<rparr>"

text \<open>
  Modelled from the spec: the path of a child, "child path = parent path + / + child name,
  with the root at path empty (or the empty prefix)": below the empty path a child has
  its name as path, as in the example of section 8. \<open>below p k\<close> says that the path
  \<open>k\<close> is \<open>p\<close> or lies inside the directory \<open>p\<close>.
\<close>

definition joinPath :: "string \<Rightarrow> string \<Rightarrow> string" where
  "joinPath dir name = (if dir = [] then name else dir @ ''/'' @ name)"

definition below :: "string \<Rightarrow> string \<Rightarrow> bool" where
  "below p k \<longleftrightarrow> k = p \<or> prefix (p @ ''/'') k"

text \<open>
  Modelled from the spec: \<open>flatten\<close> of section 4.4. It "recursively resolves each
  subdirectory's digest by fetching its serialized node" through \<open>resolve\<close> "and fails
  with MissingNode if a referenced digest cannot be resolved"; "child path = parent path +
  / + child name, with the root at path empty"; "an empty directory (zero children) is
  preserved as its own FlatEntry of kind empty-directory"; "symlink entries carry their
  literal target string and are never dereferenced". The recursion depth is bounded, as
  section 9 asks: a subdirectory below \<open>depth\<close> levels fails with \<open>TooDeep\<close>.

  \<open>flattenChildren resolve depth path children\<close> flattens the children of the directory at
  \<open>path\<close>; a later child's entries are written over an earlier one's.
\<close>

fun flattenChildren ::
  "(Digest \<Rightarrow> DirectoryNode option) \<Rightarrow> nat \<Rightarrow> string \<Rightarrow> DirectoryNode
    \<Rightarrow> Error + (string \<Rightarrow> Output option)" where
  "flattenChildren resolve depth path [] = Inr Map.empty"
| "flattenChildren resolve depth path ((name, FileChild dg exec) # rest) =
     (case flattenChildren resolve depth path rest of
        Inl err \<Rightarrow> Inl err
      | Inr m \<Rightarrow> Inr ([joinPath path name \<mapsto> fileOutput dg] ++ m))"
| "flattenChildren resolve depth path ((name, SymlinkChild target) # rest) =
     (case flattenChildren resolve depth path rest of
        Inl err \<Rightarrow> Inl err
      | Inr m \<Rightarrow> Inr ([joinPath path name \<mapsto> symlinkOutput target] ++ m))"
| "flattenChildren resolve 0 path ((name, DirChild dg) # rest) = Inl TooDeep"
| "flattenChildren resolve (Suc depth) path ((name, DirChild dg) # rest) =
     (case resolve dg of
        None \<Rightarrow> Inl (MissingNode (digestString dg))
      | Some sub \<Rightarrow>
          (case (if sub = [] then Inr [joinPath path name \<mapsto> emptyDirOutput dg]
                 else flattenChildren resolve depth (joinPath path name) sub) of
             Inl err \<Rightarrow> Inl err
           | Inr m1 \<Rightarrow>
               (case flattenChildren resolve (Suc depth) path rest of
                  Inl err \<Rightarrow> Inl err
                | Inr m2 \<Rightarrow> Inr (m1 ++ m2))))"

text \<open>
  Modelled from the spec: \<open>flatten\<close> at a directory, whose own digest is \<open>dg\<close>: the
  directory itself when it is empty, its children otherwise.
\<close>

definition flatten ::
  "(Digest \<Rightarrow> DirectoryNode option) \<Rightarrow> nat \<Rightarrow> string \<Rightarrow> Digest \<Rightarrow> DirectoryNode
    \<Rightarrow> Error + (string \<Rightarrow> Output option)" where
  "flatten resolve depth path dg node =
     (if node = [] then Inr [path \<mapsto> emptyDirOutput dg]
      else flattenChildren resolve depth path node)"

text \<open>
  Modelled from the spec: the operation "resolve digest to DirectoryNode", missing from
  the sources, over the nodes of a tree message. \<open>digestOf\<close> is the digest of a node
  ("the hash of its canonical serialized form"), a parameter.
\<close>

definition resolveIn ::
  "(DirectoryNode \<Rightarrow> Digest) \<Rightarrow> Tree \<Rightarrow> Digest \<Rightarrow> DirectoryNode option" where
  "resolveIn digestOf t dg = find (\<lambda>node. digestOf node = dg) (Children t)"

text \<open>
  Modelled from the spec: \<open>tree.FlattenTree(t, rootPath)\<close>, missing from the sources, as
  \<open>tool.go\<close> calls it: \<open>flatten\<close> at the root \<open>t.Root\<close>, with the subdirectory digests
  resolved among \<open>t.Children\<close>.
\<close>

definition FlattenTree ::
  "(DirectoryNode \<Rightarrow> Digest) \<Rightarrow> nat \<Rightarrow> Tree \<Rightarrow> string \<Rightarrow> Error + (string \<Rightarrow> Output option)"
  where
  "FlattenTree digestOf depth t rootPath =
     flatten (resolveIn digestOf t) depth rootPath (digestOf (Root t)) (Root t)"

text \<open>
  The directories of a tree with their paths: the root at the root path, and the
  subdirectories that resolve.
\<close>

inductive dirAt ::
  "(Digest \<Rightarrow> DirectoryNode option) \<Rightarrow> string \<Rightarrow> Digest \<Rightarrow> DirectoryNode
    \<Rightarrow> string \<Rightarrow> Digest \<Rightarrow> DirectoryNode \<Rightarrow> bool"
  for resolve :: "Digest \<Rightarrow> DirectoryNode option"
    and rootPath :: string and rootDg :: Digest and root :: DirectoryNode where
  dirAt_root: "dirAt resolve rootPath rootDg root rootPath rootDg root"
| dirAt_sub:
    "dirAt resolve rootPath rootDg root path dg node \<Longrightarrow> (name, DirChild dg') \<in> set node \<Longrightarrow>
     resolve dg' = Some sub \<Longrightarrow>
     dirAt resolve rootPath rootDg root (joinPath path name) dg' sub"

text \<open>
  The invariant of a directory node: "child names unique within a node"; a name is one
  path component, not empty and without a slash.
\<close>

definition wellFormedNode :: "DirectoryNode \<Rightarrow> bool" where
  "wellFormedNode node \<longleftrightarrow>
     distinct (map fst node) \<and>
     (\<forall>name \<in> set (map fst node). name \<noteq> [] \<and> CHR ''/'' \<notin> set name)"

definition wellFormedTree :: "(Digest \<Rightarrow> DirectoryNode option) \<Rightarrow> DirectoryNode \<Rightarrow> bool" where
  "wellFormedTree resolve root \<longleftrightarrow>
     wellFormedNode root \<and> (\<forall>dg sub. resolve dg = Some sub \<longrightarrow> wellFormedNode sub)"

text \<open>
  What one child contributes to the result of \<open>flattenChildren\<close>: an entry for a file or a
  symlink, the flattened subdirectory for a directory.
\<close>

definition childEntries ::
  "(Digest \<Rightarrow> DirectoryNode option) \<Rightarrow> nat \<Rightarrow> string \<Rightarrow> string \<Rightarrow> Child
    \<Rightarrow> Error + (string \<Rightarrow> Output option)" where
  "childEntries resolve depth path name c =
     (case c of
        FileChild dg exec \<Rightarrow> Inr [joinPath path name \<mapsto> fileOutput dg]
      | SymlinkChild target \<Rightarrow> Inr [joinPath path name \<mapsto> symlinkOutput target]
      | DirChild dg \<Rightarrow>
          (case depth of
             0 \<Rightarrow> Inl TooDeep
           | Suc depth' \<Rightarrow>
               (case resolve dg of
                  None \<Rightarrow> Inl (MissingNode (digestString dg))
                | Some sub \<Rightarrow> flatten resolve depth' (joinPath path name) dg sub)))"

text \<open>
  The path component of \<open>k\<close> that follows the directory path \<open>p\<close>.
\<close>

definition component :: "string \<Rightarrow> string \<Rightarrow> string" where
  "component p k =
     takeWhile (\<lambda>c. c \<noteq> CHR ''/'') (drop (if p = [] then 0 else length p + 1) k)"

text \<open>
  Every subdirectory reference below a node resolves, and no directory lies more than
  \<open>depth\<close> levels below it.
\<close>

primrec resolvesWithin ::
  "(Digest \<Rightarrow> DirectoryNode option) \<Rightarrow> nat \<Rightarrow> DirectoryNode \<Rightarrow> bool" where
  "resolvesWithin resolve 0 node \<longleftrightarrow>
     (\<forall>(name, c) \<in> set node. case c of DirChild dg \<Rightarrow> False | _ \<Rightarrow> True)"
| "resolvesWithin resolve (Suc depth) node \<longleftrightarrow>
     (\<forall>(name, c) \<in> set node.
        case c of
          DirChild dg \<Rightarrow> (\<exists>sub. resolve dg = Some sub \<and> resolvesWithin resolve depth sub)
        | _ \<Rightarrow> True)"


section \<open>go/pkg/tool: messages and collaborators\<close>

text \<open>The protocol messages, with the fields the tool reads.\<close>

record ProtoDuration =
  Seconds :: int
  Nanos :: int

record Action =
  CommandDigest :: "Digest option"
  InputRootDigest :: "Digest option"
  acTimeout :: "ProtoDuration option"

record CommandPb =
  pbArguments :: "string list"
  pbEnvironmentVariables :: "(string \<times> string) list"
  pbPlatform :: "(string \<times> string) list"
  pbOutputFiles :: "string list"
  pbOutputDirectories :: "string list"
  pbWorkingDirectory :: string

record OutputFile =
  ofPath :: string
  ofDigest :: "Digest option"

record OutputDirectory =
  odPath :: string
  odTreeDigest :: "Digest option"

record ActionResult =
  arOutputFiles :: "OutputFile list"
  arOutputDirectories :: "OutputDirectory list"
  StdoutDigest :: "Digest option"
  StderrDigest :: "Digest option"

text \<open>\<open>command.Command\<close>, \<open>command.ResultStatus\<close> and \<open>command.Result\<close>.\<close>

record Command =
  Inputs :: "string list"
  EnvironmentVariables :: "string \<Rightarrow> string option"
  ExecRoot :: string
  WorkingDir :: string
  OutputFiles :: "string list"
  OutputDirs :: "string list"
  Platform :: "string \<Rightarrow> string option"
  Args :: "string list"
  Timeout :: Duration

datatype ResultStatus =
    UnspecifiedResultStatus
  | SuccessResultStatus
  | CacheHitResultStatus
  | NonZeroExitResultStatus
  | TimeoutResultStatus
  | InterruptedResultStatus
  | RemoteErrorResultStatus
  | LocalErrorResultStatus

record Result =
  Status :: ResultStatus
  ExitCode :: int
  Err :: "Error option"

text \<open>
  What \<open>tool.go\<close> calls outside itself, as parameters: the digest package
  (\<open>NewFromString\<close>, \<open>NewFromProto\<close>, the digest of a directory node), the gRPC client
  \<open>rc.Client\<close> (\<open>ReadProto\<close> once for each message type it is used at), \<open>rexec.Client.Run\<close>,
  \<open>ptypes.Duration\<close>, and what the operating system chooses: the name of a temporary
  file, the temporary directory, the current time as \<open>time.RFC3339\<close> text, and the order
  in which \<open>range\<close> visits the keys of a map of outputs. A remote call that writes files
  takes the file system and returns it changed.
\<close>

record Env =
  NewFromString :: "string \<Rightarrow> Error + Digest"
  NewFromProto :: "Digest option \<Rightarrow> Error + Digest"
  digestOf :: "DirectoryNode \<Rightarrow> Digest"
  maxDepth :: nat
  rcCheckActionCache :: "Digest \<Rightarrow> Error + ActionResult option"
  rcReadAction :: "Digest \<Rightarrow> Error + Action"
  rcReadCommand :: "Digest \<Rightarrow> Error + CommandPb"
  rcReadTree :: "Digest \<Rightarrow> Error + Tree"
  rcGetDirectoryTree :: "Digest option \<Rightarrow> Error + DirectoryNode list"
  rcReadBlob :: "Digest \<Rightarrow> bytes \<times> Error option"
  rcReadBlobToFile :: "Digest \<Rightarrow> string \<Rightarrow> FS \<Rightarrow> Error option \<times> FS"
  rcDownloadDirectory :: "Digest \<Rightarrow> string \<Rightarrow> FS \<Rightarrow> Error option \<times> FS"
  rcDownloadActionOutputs :: "ActionResult \<Rightarrow> string \<Rightarrow> FS \<Rightarrow> Error option \<times> FS"
  rexecRun :: "Command \<Rightarrow> FS \<Rightarrow> Result \<times> FS"
  ptypesDuration :: "ProtoDuration \<Rightarrow> Error + Duration"
  formatSeconds :: "Duration \<Rightarrow> string"
  TempFile :: "FS \<Rightarrow> Error + string"
  TempDir :: string
  Now :: string
  rangeOrder :: "(string \<Rightarrow> Output option) \<Rightarrow> string list"

definition stdoutFile :: string where
  "stdoutFile = ''stdout''"

definition stderrFile :: string where
  "stderrFile = ''stderr''"

definition newline :: string where
  "newline = [CHR 0x0A]"

definition tab :: string where
  "tab = [CHR 0x09]"

text \<open>
  The disk operations as the tool calls them, recorded in the trace: it discards the
  error that each of them returns.
\<close>

definition removeAll :: "string \<Rightarrow> World \<Rightarrow> World" where
  "removeAll p w = emit (EvRemoveAll p) (w \<lparr> fs := snd (RemoveAll p (fs w)) \<rparr>)"

definition mkdir :: "string \<Rightarrow> World \<Rightarrow> World" where
  "mkdir p w = emit (EvMkdir p) (w \<lparr> fs := snd (Mkdir p (fs w)) \<rparr>)"

definition remove :: "string \<Rightarrow> World \<Rightarrow> World" where
  "remove p w = emit (EvRemove p) (w \<lparr> fs := snd (Remove p (fs w)) \<rparr>)"

section \<open>go/pkg/tool: the operations\<close>

text \<open>
  \<open>getActionResult\<close> (lines 369 to 386). The text that \<open>%v\<close> prints for the protocol
  message in the error is replaced by the digest's canonical text.
\<close>

definition getActionResult :: "Env \<Rightarrow> string \<Rightarrow> World \<Rightarrow> (Error + ActionResult) \<times> World" where
  "getActionResult env actionDigest w =
     (case NewFromString env actionDigest of
        Inl err \<Rightarrow> (Inl err, w)
      | Inr acDg \<Rightarrow>
          (let d = \<lparr> Hash = Hash acDg, Size = Size acDg \<rparr>;
               w1 = emit (EvRpc ''CheckActionCache'') w
           in case rcCheckActionCache env d of
                Inl err \<Rightarrow> (Inl err, w1)
              | Inr None \<Rightarrow>
                  (Inl (Errorf (''action digest '' @ digestString d @ '' not found in cache'')), w1)
              | Inr (Some resPb) \<Rightarrow> (Inr resPb, w1)))"

text \<open>
  The loop of \<open>DownloadActionResult\<close> over \<open>outMsgs\<close> (lines 160 to 176), for the keys in
  the order \<open>ks\<close>. A failed read is logged and the bytes it returned are written all the
  same; a failed write is logged.
\<close>

fun downloadOutMsgs ::
  "Env \<Rightarrow> (string \<Rightarrow> Digest option option) \<Rightarrow> string list \<Rightarrow> World \<Rightarrow> World" where
  "downloadOutMsgs env outMsgs [] w = w"
| "downloadOutMsgs env outMsgs (path # rest) w =
     (case outMsgs path of
        None \<Rightarrow> downloadOutMsgs env outMsgs rest w
      | Some None \<Rightarrow> downloadOutMsgs env outMsgs rest w
      | Some (Some reDg) \<Rightarrow>
          (let dg = \<lparr> Hash = Hash reDg, Size = Size reDg \<rparr>;
               w1 = emit (EvInfo (''Downloading stdout/stderr to '' @ path @ ''.'')) w;
               w2 = emit (EvRpc ''ReadBlob'') w1;
               (content, err) = rcReadBlob env dg;
               w3 = (case err of
                       Some e \<Rightarrow>
                         emit (EvError (''Unable to read blob for '' @ path @ '' with digest ''
                                          @ digestString dg @ ''.'')) w2
                     | None \<Rightarrow> w2);
               (werr, f) = WriteFile path content (fs w3);
               w4 = emit (EvWriteFile path werr) (w3 \<lparr> fs := f \<rparr>);
               w5 = (case werr of
                       Some e \<Rightarrow>
                         emit (EvError (''Unable to write output of digest '' @ digestString dg
                                          @ '' to file '' @ path @ ''.'')) w4
                     | None \<Rightarrow> w4)
           in downloadOutMsgs env outMsgs rest w5))"

text \<open>
  \<open>DownloadActionResult\<close> (lines 137 to 179). \<open>ks\<close> is the order in which \<open>range\<close> visits
  the two keys of \<open>outMsgs\<close>. The result is the returned \<open>error\<close>, \<open>None\<close> for \<open>nil\<close>.
\<close>

definition DownloadActionResult ::
  "Env \<Rightarrow> string \<Rightarrow> string \<Rightarrow> string list \<Rightarrow> World \<Rightarrow> Error option \<times> World" where
  "DownloadActionResult env actionDigest pathPrefix ks w =
     (case getActionResult env actionDigest w of
        (Inl err, w1) \<Rightarrow> (Some err, w1)
      | (Inr resPb, w1) \<Rightarrow>
          (let w2 = emit (EvInfo (''Cleaning contents of '' @ pathPrefix @ ''.'')) w1;
               w3 = removeAll pathPrefix w2;
               w4 = mkdir pathPrefix w3;
               w5 = emit (EvInfo (''Downloading action results of '' @ actionDigest @ '' to ''
                                    @ pathPrefix @ ''.'')) w4;
               w6 = emit (EvRpc ''DownloadActionOutputs'') w5;
               (err, f) = rcDownloadActionOutputs env resPb pathPrefix (fs w6);
               w7 = w6 \<lparr> fs := f \<rparr>;
               w8 = (case err of
                       Some e \<Rightarrow>
                         emit (EvError (''Failed downloading action outputs: '' @ errorText e
                                          @ ''.'')) w7
                     | None \<Rightarrow> w7);
               outMsgs = [filepathJoin pathPrefix stdoutFile \<mapsto> StdoutDigest resPb,
                          filepathJoin pathPrefix stderrFile \<mapsto> StderrDigest resPb];
               w9 = downloadOutMsgs env outMsgs ks w8;
               w10 = emit (EvInfo (''Successfully downloaded results of '' @ actionDigest
                                     @ '' to '' @ pathPrefix @ ''.'')) w9
           in (None, w10)))"

text \<open>
  \<open>DownloadBlob\<close> from line 198 on, for the path the blob goes to. The result is the
  returned pair: \<open>Inl err\<close> for \<open>("", err)\<close>, \<open>Inr s\<close> for \<open>(s, nil)\<close>.
\<close>

definition downloadBlobTo ::
  "Env \<Rightarrow> string \<Rightarrow> string \<Rightarrow> bool \<Rightarrow> World \<Rightarrow> (Error + string) \<times> World" where
  "downloadBlobTo env blobDigest path outputToStdout w =
     (case NewFromString env blobDigest of
        Inl err \<Rightarrow> (Inl err, w)
      | Inr dg \<Rightarrow>
          (let w1 = emit (EvInfo (''Downloading blob of '' @ digestString dg @ '' to ''
                                    @ path @ ''.'')) w;
               w2 = emit (EvRpc ''ReadBlobToFile'') w1;
               (err, f) = rcReadBlobToFile env dg path (fs w2);
               w3 = w2 \<lparr> fs := f \<rparr>
           in case err of
                Some e \<Rightarrow> (Inl e, w3)
              | None \<Rightarrow>
                  if \<not> outputToStdout then (Inr [], w3)
                  else
                    (let w4 = emit (EvReadFile path) w3
                     in case ReadFileFS path (fs w4) of
                          Inl e \<Rightarrow> (Inl e, w4)
                        | Inr contents \<Rightarrow> (Inr contents, w4))))"

text \<open>
  \<open>DownloadBlob\<close> (lines 183 to 214). With an empty path a temporary file is created
  and closed (closing a file just created does not fail here), and the deferred
  \<open>os.Remove\<close> runs on every return after it.
\<close>

definition DownloadBlob ::
  "Env \<Rightarrow> string \<Rightarrow> string \<Rightarrow> World \<Rightarrow> (Error + string) \<times> World" where
  "DownloadBlob env blobDigest path w =
     (if path = [] then
        (let w1 = emit EvTempFile w
         in case TempFile env (fs w1) of
              Inl err \<Rightarrow> (Inl err, w1)
            | Inr name \<Rightarrow>
                (let w2 = w1 \<lparr> fs := (fs w1)(name \<mapsto> FileNode []) \<rparr>;
                     (res, w3) = downloadBlobTo env blobDigest name True w2
                 in (res, remove name w3)))
      else downloadBlobTo env blobDigest path False w)"

text \<open>\<open>DownloadDirectory\<close> (lines 217 to 229).\<close>

definition DownloadDirectory ::
  "Env \<Rightarrow> string \<Rightarrow> string \<Rightarrow> World \<Rightarrow> Error option \<times> World" where
  "DownloadDirectory env rootDigest path w =
     (let w1 = emit (EvInfo (''Cleaning contents of '' @ path @ ''.'')) w;
          w2 = removeAll path w1;
          w3 = mkdir path w2
      in case NewFromString env rootDigest of
           Inl err \<Rightarrow> (Some err, w3)
         | Inr dg \<Rightarrow>
             (let w4 = emit (EvInfo (''Downloading input root '' @ digestString dg @ '' to ''
                                       @ path @ ''.'')) w3;
                  w5 = emit (EvRpc ''DownloadDirectory'') w4;
                  (err, f) = rcDownloadDirectory env dg path (fs w5)
              in (err, w5 \<lparr> fs := f \<rparr>)))"

text \<open>
  What \<open>os.RemoveAll(path)\<close> followed by \<open>os.Mkdir(path, 0755)\<close> leaves on the disk, and
  the map \<open>outMsgs\<close> of \<open>DownloadActionResult\<close>.
\<close>

definition cleanDir :: "string \<Rightarrow> FS \<Rightarrow> FS" where
  "cleanDir p f = snd (Mkdir p (snd (RemoveAll p f)))"




text \<open>One line of the listing that \<open>flattenTree\<close> prints (lines 358 to 364).\<close>

definition outputLine :: "string \<Rightarrow> Output \<Rightarrow> string" where
  "outputLine path output =
     (if IsEmptyDirectory output then
        path @ '': [Directory digest: '' @ digestString (Digest output) @ '']'' @ newline
      else if SymlinkTarget output \<noteq> [] then
        path @ '': [Symlink digest: '' @ digestString (Digest output)
          @ '', Symlink Target: '' @ SymlinkTarget output @ '']'' @ newline
      else
        path @ '': [File digest: '' @ digestString (Digest output) @ '']'' @ newline)"

text \<open>
  The loop over the sorted paths (lines 356 to 365). \<open>outputs[path]\<close> is a pointer; for a
  path that is not a key it is \<open>nil\<close>, and reading a field of it panics.
\<close>

fun writeOutputs :: "(string \<Rightarrow> Output option) \<Rightarrow> string list \<Rightarrow> Error + string" where
  "writeOutputs outputs [] = Inr []"
| "writeOutputs outputs (path # rest) =
     (case outputs path of
        None \<Rightarrow> Inl (Panic ''nil pointer dereference'')
      | Some output \<Rightarrow>
          (case writeOutputs outputs rest of
             Inl err \<Rightarrow> Inl err
           | Inr text \<Rightarrow> Inr (outputLine path output @ text)))"

text \<open>
  \<open>flattenTree\<close> (lines 344 to 367). \<open>rangeOrder env outputs\<close> is the order in which
  \<open>range\<close> visits the keys of \<open>outputs\<close>; \<open>sort\<close> is \<open>sort.Strings\<close>, the order of
  strings being that of their bytes.
\<close>

definition flattenTree :: "Env \<Rightarrow> Tree \<Rightarrow> Error + string \<times> string list" where
  "flattenTree env t =
     (case FlattenTree (digestOf env) (maxDepth env) t [] of
        Inl err \<Rightarrow> Inl err
      | Inr outputs \<Rightarrow>
          (let paths = sort (rangeOrder env outputs)
           in case writeOutputs outputs paths of
                Inl err \<Rightarrow> Inl err
              | Inr text \<Rightarrow> Inr (text, paths)))"

text \<open>\<open>getInputTree\<close> (lines 314 to 342).\<close>

definition getInputTree ::
  "Env \<Rightarrow> Digest option \<Rightarrow> World \<Rightarrow> (Error + string \<times> string list) \<times> World" where
  "getInputTree env root w =
     (case NewFromProto env root of
        Inl err \<Rightarrow> (Inl err, w)
      | Inr dg \<Rightarrow>
          (let res = ''[Root directory digest: '' @ digestString dg @ '']'';
               w1 = emit (EvRpc ''GetDirectoryTree'') w
           in case rcGetDirectoryTree env root of
                Inl err \<Rightarrow> (Inl err, w1)
              | Inr [] \<Rightarrow>
                  (Inl (Errorf (''Empty directories returned by GetTree for ''
                                 @ digestString dg)), w1)
              | Inr (d0 # ds) \<Rightarrow>
                  (case flattenTree env \<lparr> Root = d0, Children = d0 # ds \<rparr> of
                     Inl err \<Rightarrow> (Inl err, w1)
                   | Inr (inputs, paths) \<Rightarrow> (Inr (res @ newline @ inputs, paths), w1))))"

text \<open>\<open>getOutputs\<close> (lines 281 to 312): its two loops, then the function.\<close>

fun writeOutputFiles :: "Env \<Rightarrow> OutputFile list \<Rightarrow> Error + string" where
  "writeOutputFiles env [] = Inr []"
| "writeOutputFiles env (file # rest) =
     (case NewFromProto env (ofDigest file) of
        Inl err \<Rightarrow> Inl err
      | Inr dg \<Rightarrow>
          (case writeOutputFiles env rest of
             Inl err \<Rightarrow> Inl err
           | Inr text \<Rightarrow>
               Inr (ofPath file @ '', digest: '' @ digestString dg @ newline @ text)))"

fun writeOutputDirs :: "Env \<Rightarrow> OutputDirectory list \<Rightarrow> World \<Rightarrow> (Error + string) \<times> World"
  where
  "writeOutputDirs env [] w = (Inr [], w)"
| "writeOutputDirs env (od # rest) w =
     (case NewFromProto env (odTreeDigest od) of
        Inl err \<Rightarrow> (Inl err, w)
      | Inr dg \<Rightarrow>
          (let w1 = emit (EvRpc ''ReadProto'') w
           in case rcReadTree env dg of
                Inl err \<Rightarrow> (Inl err, w1)
              | Inr outDirTree \<Rightarrow>
                  (case flattenTree env outDirTree of
                     Inl err \<Rightarrow> (Inl err, w1)
                   | Inr (outputs, paths) \<Rightarrow>
                       (case writeOutputDirs env rest w1 of
                          (Inl err, w2) \<Rightarrow> (Inl err, w2)
                        | (Inr text, w2) \<Rightarrow> (Inr (newline @ outputs @ text), w2)))))"

definition getOutputs :: "Env \<Rightarrow> ActionResult \<Rightarrow> World \<Rightarrow> (Error + string) \<times> World" where
  "getOutputs env actionRes w =
     (case writeOutputFiles env (arOutputFiles actionRes) of
        Inl err \<Rightarrow> (Inl err, w)
      | Inr files \<Rightarrow>
          (case writeOutputDirs env (arOutputDirectories actionRes) w of
             (Inl err, w1) \<Rightarrow> (Inl err, w1)
           | (Inr dirs, w1) \<Rightarrow>
               (Inr (''Output Files:'' @ newline @ ''============='' @ newline @ files
                     @ newline @ ''Output Files From Directories:'' @ newline
                     @ ''================='' @ newline @ dirs), w1)))"

text \<open>\<open>ShowAction\<close> (lines 232 to 279).\<close>

definition ShowAction :: "Env \<Rightarrow> string \<Rightarrow> World \<Rightarrow> (Error + string) \<times> World" where
  "ShowAction env actionDigest w =
     (case getActionResult env actionDigest w of
        (Inl err, w1) \<Rightarrow> (Inl err, w1)
      | (Inr resPb, w1) \<Rightarrow>
     (case NewFromString env actionDigest of
        Inl err \<Rightarrow> (Inl err, w1)
      | Inr acDg \<Rightarrow>
     (let w2 = emit (EvRpc ''ReadProto'') w1 in
      case rcReadAction env acDg of
        Inl err \<Rightarrow> (Inl err, w2)
      | Inr actionProto \<Rightarrow>
     (case NewFromProto env (CommandDigest actionProto) of
        Inl err \<Rightarrow> (Inl err, w2)
      | Inr cmdDg \<Rightarrow>
     (let res1 = ''Command'' @ newline @ ''========'' @ newline
                 @ ''Command Digest: '' @ digestString cmdDg @ newline;
          w3 = emit (EvInfo ''Reading command from action digest..'') w2;
          w4 = emit (EvRpc ''ReadProto'') w3 in
      case rcReadCommand env cmdDg of
        Inl err \<Rightarrow> (Inl err, w4)
      | Inr commandProto \<Rightarrow>
     (let cmdStr = joinStrings (pbArguments commandProto) '' '';
          res2 = res1 @ tab @ cmdStr @ newline;
          w5 = emit (EvInfo ''Fetching input tree from input root digest..'') w4 in
      case getInputTree env (InputRootDigest actionProto) w5 of
        (Inl err, w6) \<Rightarrow> (Inl err, w6)
      | (Inr (inpTree, paths), w6) \<Rightarrow>
     (let res3 = res2 @ newline @ ''Inputs'' @ newline @ ''======'' @ newline @ inpTree;
          w7 = emit (EvInfo ''Fetching output tree from action result..'') w6 in
      case getOutputs env resPb w7 of
        (Inl err, w8) \<Rightarrow> (Inl err, w8)
      | (Inr outs, w8) \<Rightarrow> (Inr (res3 @ newline @ outs), w8))))))))"

text \<open>\<open>commandFromREProto\<close> (lines 113 to 133): in each map a later entry wins.\<close>

definition commandFromREProto :: "CommandPb \<Rightarrow> Command" where
  "commandFromREProto cmdPb =
     \<lparr> Inputs = [],
       EnvironmentVariables =
         foldl (\<lambda>m ev. m(fst ev \<mapsto> snd ev)) Map.empty (pbEnvironmentVariables cmdPb),
       ExecRoot = [],
       WorkingDir = pbWorkingDirectory cmdPb,
       OutputFiles = pbOutputFiles cmdPb,
       OutputDirs = pbOutputDirectories cmdPb,
       Platform = foldl (\<lambda>m pt. m(fst pt \<mapsto> snd pt)) Map.empty (pbPlatform cmdPb),
       Args = pbArguments cmdPb,
       Timeout = 0 \<rparr>"

text \<open>
  \<open>ReexecuteAction\<close>, lines 71 to 83: the input root, downloaded to a fresh directory
  when none was given.
\<close>

definition fetchInputRoot ::
  "Env \<Rightarrow> Digest \<Rightarrow> Action \<Rightarrow> string \<Rightarrow> World \<Rightarrow> (Error + string) \<times> World" where
  "fetchInputRoot env acDg actionProto inputRoot w =
     (if inputRoot = [] then
        (let inputRoot' = filepathJoin (TempDir env) (Hash acDg @ ''_'' @ Now env)
         in case NewFromProto env (InputRootDigest actionProto) of
              Inl err \<Rightarrow> (Inl err, w)
            | Inr dg \<Rightarrow>
                (let w1 = emit (EvInfo (''Fetching input tree from input root digest ''
                                          @ digestString dg @ '' into '' @ inputRoot')) w;
                     w2 = emit (EvRpc ''DownloadDirectory'') w1;
                     (err, f) = rcDownloadDirectory env dg inputRoot' (fs w2);
                     w3 = w2 \<lparr> fs := f \<rparr>
                 in case err of
                      Some e \<Rightarrow> (Inl e, w3)
                    | None \<Rightarrow> (Inr inputRoot', w3)))
      else (Inr inputRoot, w))"

text \<open>Lines 84 to 110: the command is built and run, and the outcome reported.\<close>

definition statusMessage :: "Env \<Rightarrow> Command \<Rightarrow> Result \<Rightarrow> string option" where
  "statusMessage env cmd res =
     (case Status res of
        NonZeroExitResultStatus \<Rightarrow>
          Some (''Remote action FAILED with exit code '' @ showInt (ExitCode res) @ ''.''
                @ newline)
      | TimeoutResultStatus \<Rightarrow>
          Some (''Remote action TIMED OUT after '' @ formatSeconds env (Timeout cmd)
                @ '' seconds.'' @ newline)
      | InterruptedResultStatus \<Rightarrow> Some (''Remote execution was interrupted.'' @ newline)
      | RemoteErrorResultStatus \<Rightarrow>
          Some (''Remote execution error: ''
                @ (case Err res of None \<Rightarrow> ''<nil>'' | Some e \<Rightarrow> errorText e) @ ''.'' @ newline)
      | LocalErrorResultStatus \<Rightarrow>
          Some (''Local error: ''
                @ (case Err res of None \<Rightarrow> ''<nil>'' | Some e \<Rightarrow> errorText e) @ ''.'' @ newline)
      | _ \<Rightarrow> None)"

definition runCommand ::
  "Env \<Rightarrow> Action \<Rightarrow> CommandPb \<Rightarrow> string list \<Rightarrow> string \<Rightarrow> World \<Rightarrow> Error option \<times> World"
  where
  "runCommand env actionProto commandProto inputPaths inputRoot w =
     (let cmd = (commandFromREProto commandProto) \<lparr> Inputs := inputPaths, ExecRoot := inputRoot \<rparr>
      in case (case acTimeout actionProto of
                 None \<Rightarrow> Inr cmd
               | Some t \<Rightarrow>
                   (case ptypesDuration env t of
                      Inl err \<Rightarrow> Inl err
                    | Inr tm \<Rightarrow> Inr (cmd \<lparr> Timeout := tm \<rparr>))) of
           Inl err \<Rightarrow> (Some err, w)
         | Inr cmd' \<Rightarrow>
             (let w1 = emit (EvRpc ''Run'') w;
                  (res, f) = rexecRun env cmd' (fs w1);
                  w2 = w1 \<lparr> fs := f \<rparr>;
                  w3 = (case statusMessage env cmd' res of
                          None \<Rightarrow> w2
                        | Some msg \<Rightarrow> emit (EvWriteErr msg) w2)
              in (Err res, w3)))"

text \<open>\<open>ReexecuteAction\<close> (lines 41 to 111).\<close>

definition ReexecuteAction ::
  "Env \<Rightarrow> string \<Rightarrow> string \<Rightarrow> World \<Rightarrow> Error option \<times> World" where
  "ReexecuteAction env actionDigest inputRoot w =
     (case NewFromString env actionDigest of
        Inl err \<Rightarrow> (Some err, w)
      | Inr acDg \<Rightarrow>
     (let w1 = emit (EvRpc ''ReadProto'') w in
      case rcReadAction env acDg of
        Inl err \<Rightarrow> (Some err, w1)
      | Inr actionProto \<Rightarrow>
     (case NewFromProto env (CommandDigest actionProto) of
        Inl err \<Rightarrow> (Some err, w1)
      | Inr cmdDg \<Rightarrow>
     (let w2 = emit (EvInfo ''Reading command from action digest..'') w1;
          w3 = emit (EvRpc ''ReadProto'') w2 in
      case rcReadCommand env cmdDg of
        Inl err \<Rightarrow> (Some err, w3)
      | Inr commandProto \<Rightarrow>
     (case getInputTree env (InputRootDigest actionProto) w3 of
        (Inl err, w4) \<Rightarrow> (Some err, w4)
      | (Inr (inpTree, inputPaths), w4) \<Rightarrow>
     (case fetchInputRoot env acDg actionProto inputRoot w4 of
        (Inl err, w5) \<Rightarrow> (Some err, w5)
      | (Inr inputRoot', w5) \<Rightarrow>
          runCommand env actionProto commandProto inputPaths inputRoot' w5))))))"

text \<open>
  The directory nodes behind a root digest cannot be resolved: \<open>GetDirectoryTree\<close> fails, or
  it yields no node at all, or some directory of the tree it yields names a subdirectory
  whose digest is not among the nodes.
\<close>

definition unresolvable :: "Env \<Rightarrow> Digest option \<Rightarrow> bool" where
  "unresolvable env root \<longleftrightarrow>
     (\<exists>err. rcGetDirectoryTree env root = Inl err) \<or>
     rcGetDirectoryTree env root = Inr [] \<or>
     (\<exists>d0 ds path dg node name dg'.
        rcGetDirectoryTree env root = Inr (d0 # ds) \<and>
        dirAt (resolveIn (digestOf env) \<lparr> Root = d0, Children = d0 # ds \<rparr>) []
          (digestOf env d0) d0 path dg node \<and>
        (name, DirChild dg') \<in> set node \<and>
        resolveIn (digestOf env) \<lparr> Root = d0, Children = d0 # ds \<rparr> dg' = None)"


section \<open>Example values\<close>

text \<open>
  The directory of the specification's example: the file \<open>a.txt\<close>, the empty directory
  \<open>b\<close> and the symlink \<open>c\<close> to \<open>a.txt\<close>. The stand-in for the hash of a node is the
  text of its child names.
\<close>

definition exDigestOf :: "DirectoryNode \<Rightarrow> Digest" where
  "exDigestOf node = \<lparr> Hash = concat (map fst node), Size = int (length node) \<rparr>"

definition exFileDigest :: Digest where
  "exFileDigest = \<lparr> Hash = ''d0'', Size = 10 \<rparr>"

definition exRoot :: DirectoryNode where
  "exRoot = [(''a.txt'', FileChild exFileDigest False),
             (''b'', DirChild (exDigestOf [])),
             (''c'', SymlinkChild ''a.txt'')]"

definition exTree :: Tree where
  "exTree = \<lparr> Root = exRoot, Children = [exRoot, []] \<rparr>"

definition exOutputs :: "string \<Rightarrow> Output option" where
  "exOutputs = [''a.txt'' \<mapsto> fileOutput exFileDigest,
                ''b'' \<mapsto> emptyDirOutput (exDigestOf []),
                ''c'' \<mapsto> symlinkOutput ''a.txt'']"


text \<open>
  A remote side for the examples. It knows one action, whose result names a standard
  output blob; every download from it fails without touching the disk, except
  \<open>ReadBlobToFile\<close>, which writes the blob \<open>hello\<close>. The maps of outputs are visited in
  the order \<open>c\<close>, \<open>a.txt\<close>, \<open>b\<close>.
\<close>

definition exHash :: string where
  "exHash = ''e3b0c44298fc1c149afbf4c8996fb92427ae41e4649b934ca495991b7852b855''"

definition exActionDigest :: Digest where
  "exActionDigest = \<lparr> Hash = exHash, Size = 7 \<rparr>"

definition exBlobDigest :: Digest where
  "exBlobDigest = \<lparr> Hash = exHash, Size = 5 \<rparr>"

definition exActionResult :: ActionResult where
  "exActionResult =
     \<lparr> arOutputFiles = [], arOutputDirectories = [],
       StdoutDigest = Some exBlobDigest, StderrDigest = None \<rparr>"

definition exAction :: Action where
  "exAction =
     \<lparr> CommandDigest = Some exBlobDigest, InputRootDigest = Some exBlobDigest,
       acTimeout = None \<rparr>"

definition exCommand :: CommandPb where
  "exCommand =
     \<lparr> pbArguments = [''echo'', ''hello''], pbEnvironmentVariables = [], pbPlatform = [],
       pbOutputFiles = [], pbOutputDirectories = [], pbWorkingDirectory = [] \<rparr>"

definition exValidate :: "Digest option \<Rightarrow> Error + Digest" where
  "exValidate d =
     (case d of
        None \<Rightarrow> Inl (MalformedDigest [])
      | Some dg \<Rightarrow>
          if length (Hash dg) = 64 \<and> list_all isHexDigit (Hash dg) \<and> 0 \<le> Size dg then Inr dg
          else Inl (MalformedDigest (digestString dg)))"

definition exEnv :: Env where
  "exEnv =
     \<lparr> NewFromString = parseDigest 64,
       NewFromProto = exValidate,
       digestOf = exDigestOf,
       maxDepth = 16,
       rcCheckActionCache =
         (\<lambda>d. if d = exActionDigest then Inr (Some exActionResult) else Inr None),
       rcReadAction = (\<lambda>d. Inr exAction),
       rcReadCommand = (\<lambda>d. Inr exCommand),
       rcReadTree = (\<lambda>d. Inl (RpcError ''unavailable'')),
       rcGetDirectoryTree = (\<lambda>root. Inr []),
       rcReadBlob = (\<lambda>d. ([], Some (RpcError ''unavailable''))),
       rcReadBlobToFile = (\<lambda>d p f. (None, f(p \<mapsto> FileNode ''hello''))),
       rcDownloadDirectory = (\<lambda>d p f. (Some (RpcError ''unavailable''), f)),
       rcDownloadActionOutputs = (\<lambda>res p f. (Some (RpcError ''unavailable''), f)),
       rexecRun = (\<lambda>cmd f. (\<lparr> Status = SuccessResultStatus, ExitCode = 0, Err = None \<rparr>, f)),
       ptypesDuration = (\<lambda>d. Inr 0),
       formatSeconds = (\<lambda>d. ''0''),
       TempFile = (\<lambda>f. Inr ''/tmp/blob1''),
       TempDir = ''/tmp'',
       Now = ''2020-01-01T00:00:00Z'',
       rangeOrder = (\<lambda>m. [''c'', ''a.txt'', ''b'']) \<rparr>"

text \<open>A disk with the directory \<open>/out\<close> and a file in it.\<close>

definition exFS :: FS where
  "exFS = [''/out'' \<mapsto> DirNode, ''/out/keep.txt'' \<mapsto> FileNode ''data'']"

definition exWorld :: World where
  "exWorld = \<lparr> fs = exFS, trace = [] \<rparr>"

definition exActionString :: string where
  "exActionString = exHash @ ''/7''"

definition exBlobString :: string where
  "exBlobString = exHash @ ''/5''"

text \<open>
  A directory whose only child is a symlink with an empty target, and the remote side of
  the examples with the visiting order of its one path.
\<close>

definition exLinkRoot :: DirectoryNode where
  "exLinkRoot = [(''c'', SymlinkChild [])]"

definition exLinkTree :: Tree where
  "exLinkTree = \<lparr> Root = exLinkRoot, Children = [exLinkRoot] \<rparr>"

definition exLinkOutputs :: "string \<Rightarrow> Output option" where
  "exLinkOutputs = [''c'' \<mapsto> symlinkOutput []]"

definition exLinkEnv :: Env where
  "exLinkEnv = exEnv \<lparr> rangeOrder := (\<lambda>m. [''c'']) \<rparr>"


section \<open>Properties of NewClientFromFlags\<close>

lemma copyDefaults_lookup:
  "copyDefaults defaults ks timeouts rpc =
     (if rpc \<in> set ks \<and> defaults rpc \<noteq> None then defaults rpc else timeouts rpc)"
  by (induction ks arbitrary: timeouts) (auto split: option.splits)

lemma copyDefaults_all:
  assumes "enumerates dks defaults"
  shows "copyDefaults defaults dks Map.empty = defaults"
proof
  fix rpc
  show "copyDefaults defaults dks Map.empty rpc = defaults rpc"
    using assms by (cases "defaults rpc") (auto simp: copyDefaults_lookup enumerates_def)
qed

lemma applyOverrides_ok:
  assumes "\<forall>rpc \<in> set ks. \<forall>s. flags rpc = Some s \<longrightarrow> (\<exists>d. parse s = Inr d)"
  shows "applyOverrides parse flags ks timeouts =
           Inr (\<lambda>rpc. if rpc \<in> set ks \<and> flags rpc \<noteq> None
                      then (case parse (the (flags rpc)) of Inl err \<Rightarrow> None | Inr d \<Rightarrow> Some d)
                      else timeouts rpc)"
  using assms
proof (induction ks arbitrary: timeouts)
  case Nil
  then show ?case by simp
next
  case (Cons rpc ks)
  show ?case
  proof (cases "flags rpc")
    case None
    then show ?thesis using Cons by (auto intro!: ext)
  next
    case (Some s)
    then obtain d where d: "parse s = Inr d" using Cons.prems by auto
    have "applyOverrides parse flags (rpc # ks) timeouts
            = applyOverrides parse flags ks (timeouts(rpc \<mapsto> d))"
      using Some d by simp
    also have "\<dots> = Inr (\<lambda>r. if r \<in> set ks \<and> flags r \<noteq> None
                      then (case parse (the (flags r)) of Inl err \<Rightarrow> None | Inr d \<Rightarrow> Some d)
                      else (timeouts(rpc \<mapsto> d)) r)"
      using Cons.prems by (intro Cons.IH) auto
    finally show ?thesis using Some d by (auto intro!: ext)
  qed
qed

lemma applyOverrides_fails:
  assumes "rpc \<in> set ks" "flags rpc = Some s" "parse s = Inl err"
  shows "\<exists>e. applyOverrides parse flags ks timeouts = Inl e"
  using assms
  by (induction ks arbitrary: timeouts) (auto split: option.splits sum.splits)

text \<open>
  C4. When overrides are supplied, and for every order in which the two loops may visit
  their maps: if every override parses, the client is built with the options given by the
  caller followed by the CAS concurrency and by the timeout map that holds every entry of
  the defaults with exactly the overridden keys replaced; if some override does not
  parse, the result is an error and no client.
\<close>

theorem NewClientFromFlags_timeouts:
  assumes "dom (fRPCTimeouts fl) \<noteq> {}"
    and "enumerates dks (DefaultRPCTimeouts env)"
    and "enumerates ks (fRPCTimeouts fl)"
  shows "((\<forall>rpc s. fRPCTimeouts fl rpc = Some s \<longrightarrow> (\<exists>d. ParseDuration env s = Inr d)) \<longrightarrow>
            NewClientFromFlags env fl dks ks opts =
              connect env fl (opts @ [CASConcurrency (fCASConcurrency fl),
                                      RPCTimeouts (mergedTimeouts env fl)]))
       \<and> ((\<exists>rpc s err. fRPCTimeouts fl rpc = Some s \<and> ParseDuration env s = Inl err) \<longrightarrow>
            (\<exists>e. NewClientFromFlags env fl dks ks opts = Inl e))"
proof (intro conjI impI)
  assume ok: "\<forall>rpc s. fRPCTimeouts fl rpc = Some s \<longrightarrow> (\<exists>d. ParseDuration env s = Inr d)"
  let ?res = "\<lambda>rpc. if rpc \<in> set ks \<and> fRPCTimeouts fl rpc \<noteq> None
                then (case ParseDuration env (the (fRPCTimeouts fl rpc)) of
                        Inl err \<Rightarrow> None | Inr d \<Rightarrow> Some d)
                else DefaultRPCTimeouts env rpc"
  have "applyOverrides (ParseDuration env) (fRPCTimeouts fl) ks (DefaultRPCTimeouts env)
          = Inr ?res"
    using ok by (intro applyOverrides_ok) blast
  moreover have "?res = mergedTimeouts env fl"
  proof
    fix rpc
    show "?res rpc = mergedTimeouts env fl rpc"
      using assms(3)
      by (cases "fRPCTimeouts fl rpc") (auto simp: mergedTimeouts_def enumerates_def)
  qed
  ultimately show "NewClientFromFlags env fl dks ks opts =
      connect env fl (opts @ [CASConcurrency (fCASConcurrency fl),
                              RPCTimeouts (mergedTimeouts env fl)])"
    using assms(1) by (simp add: NewClientFromFlags_def copyDefaults_all [OF assms(2)])
next
  assume "\<exists>rpc s err. fRPCTimeouts fl rpc = Some s \<and> ParseDuration env s = Inl err"
  then obtain rpc s err where b: "fRPCTimeouts fl rpc = Some s" "ParseDuration env s = Inl err"
    by blast
  then have "rpc \<in> set ks" using assms(3) by (auto simp: enumerates_def)
  from applyOverrides_fails [of rpc ks "fRPCTimeouts fl" s "ParseDuration env" err, OF this b]
  obtain e where "applyOverrides (ParseDuration env) (fRPCTimeouts fl) ks
                    (copyDefaults (DefaultRPCTimeouts env) dks Map.empty) = Inl e"
    by blast
  then show "\<exists>e. NewClientFromFlags env fl dks ks opts = Inl e"
    using assms(1) by (simp add: NewClientFromFlags_def)
qed

theorem NewClientFromFlags_timeouts_witness:
  "NewClientFromFlags exFlagsEnv (exFlags [''Execute'' \<mapsto> ''0'', ''default'' \<mapsto> ''10s''])
      [''GetActionResult'', ''default''] [''default'', ''Execute''] []
     = Inr [CASConcurrency 500,
            RPCTimeouts (mergedTimeouts exFlagsEnv
               (exFlags [''Execute'' \<mapsto> ''0'', ''default'' \<mapsto> ''10s'']))]
   \<and> mergedTimeouts exFlagsEnv (exFlags [''Execute'' \<mapsto> ''0'', ''default'' \<mapsto> ''10s''])
        ''GetActionResult'' = Some 500000000
   \<and> mergedTimeouts exFlagsEnv (exFlags [''Execute'' \<mapsto> ''0'', ''default'' \<mapsto> ''10s''])
        ''default'' = Some 10000000000
   \<and> mergedTimeouts exFlagsEnv (exFlags [''Execute'' \<mapsto> ''0'', ''default'' \<mapsto> ''10s''])
        ''Execute'' = Some 0
   \<and> (\<exists>e. NewClientFromFlags exFlagsEnv (exFlags [''Execute'' \<mapsto> ''soon''])
        [''default'', ''GetActionResult''] [''Execute''] [] = Inl e)"
proof -
  let ?good = "exFlags [''Execute'' \<mapsto> ''0'', ''default'' \<mapsto> ''10s'']"
  let ?bad = "exFlags [''Execute'' \<mapsto> ''soon'']"
  have d1: "enumerates [''GetActionResult'', ''default''] (DefaultRPCTimeouts exFlagsEnv)"
    and d2: "enumerates [''default'', ''GetActionResult''] (DefaultRPCTimeouts exFlagsEnv)"
    by (auto simp: enumerates_def exFlagsEnv_def exDefaults_def)
  have g1: "dom (fRPCTimeouts ?good) \<noteq> {}"
    and g2: "enumerates [''default'', ''Execute''] (fRPCTimeouts ?good)"
    and g3: "\<forall>rpc s. fRPCTimeouts ?good rpc = Some s \<longrightarrow> (\<exists>d. ParseDuration exFlagsEnv s = Inr d)"
    by (auto simp: enumerates_def exFlags_def exFlagsEnv_def exParse_def split: if_splits)
  have b1: "dom (fRPCTimeouts ?bad) \<noteq> {}"
    and b2: "enumerates [''Execute''] (fRPCTimeouts ?bad)"
    and b3: "\<exists>rpc s err. fRPCTimeouts ?bad rpc = Some s \<and> ParseDuration exFlagsEnv s = Inl err"
    by (auto simp: enumerates_def exFlags_def exFlagsEnv_def exParse_def split: if_splits)
  have c: "connect exFlagsEnv ?good opts = Inr opts" for opts
    by (simp add: connect_def loadCertPool_def exFlags_def exFlagsEnv_def)
  have m: "mergedTimeouts exFlagsEnv ?good ''GetActionResult'' = Some 500000000"
    "mergedTimeouts exFlagsEnv ?good ''default'' = Some 10000000000"
    "mergedTimeouts exFlagsEnv ?good ''Execute'' = Some 0"
    by (simp_all add: mergedTimeouts_def exFlags_def exFlagsEnv_def exParse_def exDefaults_def)
  show ?thesis
    using NewClientFromFlags_timeouts [OF g1 d1 g2, of "[]"]
      NewClientFromFlags_timeouts [OF b1 d2 b2, of "[]"] g3 b3 c m
    by (simp add: exFlags_def)
qed

section \<open>Properties of the Chunker\<close>

lemma feed_append:
  "feed sink (xs @ ys) = (case feed sink xs of Inl err \<Rightarrow> Inl err | Inr s \<Rightarrow> feed s ys)"
  by (induction xs arbitrary: sink) (auto split: sum.splits)

lemma take_then_rest: "take k xs @ drop (length (take k xs)) xs = xs"
  by (cases "k \<le> length xs") (simp_all add: min_def)

text \<open>
  From any state past the inline decision, the loop ends, and what it produces extends
  a sink that has reached the current offset by the rest of the source.
\<close>

lemma drain_rest:
  assumes "0 < chunkSize c" and "started c \<or> \<not> small c"
  shows "\<exists>chs. drain c acc = Some (Inr (acc @ chs)) \<and>
           (\<forall>sink. sinkEnd sink \<le> offset c \<longrightarrow>
              (\<exists>sink'. feed sink chs = Inr sink' \<and>
                        written sink' = written sink @ drop (offset c) (source c)))"
  using assms
proof (induction "length (source c) - offset c" arbitrary: c acc rule: less_induct)
  case less
  show ?case
  proof (cases "hasNext c")
    case False
    then have "length (source c) \<le> offset c" by (simp add: hasNext_def)
    moreover have "drain c acc = Some (Inr acc)" using False by (subst drain.simps) simp
    ultimately show ?thesis by (intro exI [of _ "[]"]) simp
  next
    case True
    then have lt: "offset c < length (source c)" using less.prems(2) by (auto simp: hasNext_def)
    define data where "data = take (chunkSize c) (drop (offset c) (source c))"
    define ch where "ch = \<lparr> chunkOffset = offset c, payload = data \<rparr>"
    define c' where "c' = c \<lparr> offset := offset c + length data, started := True \<rparr>"
    have len: "0 < length data" using lt less.prems(1) by (simp add: data_def)
    have nx: "nextChunk c = Inr (ch, c')"
      using True less.prems(2) lt
      by (auto simp: nextChunk_def Let_def ch_def c'_def data_def)
    have step: "drain c acc = drain c' (acc @ [ch])"
      using True nx by (subst drain.simps) simp
    have "length (source c') - offset c' < length (source c) - offset c"
      using lt len by (simp add: c'_def del: length_greater_0_conv)
    moreover have "0 < chunkSize c'" "started c' \<or> \<not> small c'"
      using less.prems by (simp_all add: c'_def)
    ultimately obtain chs where chs: "drain c' (acc @ [ch]) = Some (Inr ((acc @ [ch]) @ chs))"
      and fd: "\<And>sink. sinkEnd sink \<le> offset c' \<Longrightarrow>
                \<exists>sink'. feed sink chs = Inr sink' \<and>
                        written sink' = written sink @ drop (offset c') (source c')"
      using less.hyps [of c' "acc @ [ch]"] by blast
    have "\<exists>sink'. feed sink (ch # chs) = Inr sink' \<and>
                   written sink' = written sink @ drop (offset c) (source c)"
      if le: "sinkEnd sink \<le> offset c" for sink
    proof -
      let ?s1 = "\<lparr> written = written sink @ data, sinkEnd = offset c + length data \<rparr>"
      have a: "accept sink ch = Inr ?s1" using le by (simp add: accept_def ch_def)
      have "sinkEnd ?s1 \<le> offset c'" by (simp add: c'_def)
      from fd [OF this] obtain sink' where s': "feed ?s1 chs = Inr sink'"
        "written sink' = written ?s1 @ drop (offset c') (source c')" by blast
      have "drop (offset c + length data) (source c)
              = drop (length data) (drop (offset c) (source c))"
        by (simp add: add.commute)
      then have "data @ drop (offset c + length data) (source c) = drop (offset c) (source c)"
        unfolding data_def by (simp only: take_then_rest)
      then show ?thesis using a s' by (simp add: c'_def)
    qed
    then show ?thesis using step chs by (intro exI [of _ "ch # chs"]) simp
  qed
qed

lemma drain_start:
  assumes "0 < chunkSize c" and "offset c = 0" and "\<not> started c"
  shows "\<exists>chs. drain c [] = Some (Inr chs) \<and>
           (\<exists>sink'. feed \<lparr> written = [], sinkEnd = 0 \<rparr> chs = Inr sink' \<and>
                     written sink' = source c)"
proof (cases "small c")
  case False
  from drain_rest [of c "[]"] assms False
  obtain chs where "drain c [] = Some (Inr chs)"
    and "\<And>sink. sinkEnd sink \<le> offset c \<Longrightarrow>
           \<exists>sink'. feed sink chs = Inr sink' \<and>
                   written sink' = written sink @ drop (offset c) (source c)"
    by auto
  from this(1) this(2) [of "\<lparr> written = [], sinkEnd = 0 \<rparr>"] show ?thesis
    using assms(2) by auto
next
  case True
  define ch where "ch = \<lparr> chunkOffset = 0, payload = source c \<rparr>"
  define c' where "c' = c \<lparr> offset := length (source c), started := True \<rparr>"
  have hn: "hasNext c" using True assms(3) by (simp add: hasNext_def)
  then have nx: "nextChunk c = Inr (ch, c')"
    using True assms(3) by (simp add: nextChunk_def ch_def c'_def)
  have "\<not> hasNext c'" by (simp add: hasNext_def c'_def small_def)
  then have "drain c' [ch] = Some (Inr [ch])" by (subst drain.simps) simp
  then have "drain c [] = Some (Inr [ch])" using hn nx by (subst drain.simps) simp
  moreover have "feed \<lparr> written = [], sinkEnd = 0 \<rparr> [ch]
                   = Inr \<lparr> written = source c, sinkEnd = length (source c) \<rparr>"
    by (simp add: accept_def ch_def)
  ultimately show ?thesis by simp
qed

text \<open>
  C5. For every blob, of size zero too, every positive chunk size and every inline
  threshold: chunking returns a chunk sequence, and reassembling it against the blob's
  length gives the blob back.
\<close>

theorem chunk_reassemble_roundtrip:
  assumes "0 < csize"
  shows "\<exists>chs. chunk threshold src csize = Some (Inr chs) \<and>
               reassemble (length src) chs = Inr src"
proof -
  let ?c = "\<lparr> source = src, chunkSize = csize, inlineThreshold = threshold,
              offset = 0, started = False \<rparr>"
  from drain_start [of ?c] assms obtain chs sink' where
    "drain ?c [] = Some (Inr chs)" "feed \<lparr> written = [], sinkEnd = 0 \<rparr> chs = Inr sink'"
    "written sink' = src"
    by auto
  then show ?thesis using assms by (auto simp: chunk_def forSource_def reassemble_def)
qed

theorem chunk_reassemble_roundtrip_witness:
  "(0::nat) < 2 \<and>
   (\<exists>chs. chunk 0 ''hello'' 2 = Some (Inr chs) \<and> reassemble (length ''hello'') chs = Inr ''hello'') \<and>
   (\<exists>chs. chunk 8 [] 2 = Some (Inr chs) \<and> reassemble (length ([] :: bytes)) chs = Inr [])"
  using chunk_reassemble_roundtrip [of 2 0 "''hello''"]
    chunk_reassemble_roundtrip [of 2 8 "[]"]
  by (simp del: list.size)


section \<open>Properties of flattening\<close>

lemma below_refl: "below p p"
  by (simp add: below_def)

lemma below_joinPath:
  assumes "p \<noteq> []" and "below (joinPath p name) k"
  shows "below p k"
proof -
  have "prefix (p @ ''/'') (joinPath p name)" using assms(1) by (simp add: joinPath_def)
  moreover have "prefix (joinPath p name) k"
    using assms(2) by (auto simp: below_def prefix_def)
  ultimately show ?thesis unfolding below_def by (meson prefix_order.order_trans)
qed

lemma joinPath_nonempty: "name \<noteq> [] \<Longrightarrow> joinPath p name \<noteq> []"
  by (simp add: joinPath_def)

lemma takeWhile_name:
  assumes "CHR ''/'' \<notin> set name"
  shows "takeWhile (\<lambda>c. c \<noteq> CHR ''/'') name = name"
    and "takeWhile (\<lambda>c. c \<noteq> CHR ''/'') (name @ CHR ''/'' # z) = name"
proof -
  have a: "\<forall>c \<in> set name. c \<noteq> CHR ''/''" using assms by auto
  then show "takeWhile (\<lambda>c. c \<noteq> CHR ''/'') name = name" by (simp add: takeWhile_eq_all_conv)
  show "takeWhile (\<lambda>c. c \<noteq> CHR ''/'') (name @ CHR ''/'' # z) = name"
    using a by (simp add: takeWhile_append2)
qed

lemma component_below:
  assumes "CHR ''/'' \<notin> set name" and "name \<noteq> []" and "below (joinPath p name) k"
  shows "component p k = name"
proof -
  from assms(3) consider "k = joinPath p name" | z where "k = joinPath p name @ CHR ''/'' # z"
    by (auto simp: below_def prefix_def)
  then show ?thesis
  proof cases
    case 1
    then show ?thesis
      using takeWhile_name(1) [OF assms(1)] by (simp add: component_def joinPath_def)
  next
    case 2
    then show ?thesis
      using takeWhile_name(2) [OF assms(1)] by (simp add: component_def joinPath_def)
  qed
qed

lemma below_separate:
  assumes "CHR ''/'' \<notin> set a" "a \<noteq> []" "CHR ''/'' \<notin> set b" "b \<noteq> []"
    and "below (joinPath p a) k" "below (joinPath p b) k"
  shows "a = b"
  using component_below [OF assms(1,2,5)] component_below [OF assms(3,4,6)] by simp

lemma wellFormedNode_Cons:
  "wellFormedNode (c # cs) \<longleftrightarrow>
     fst c \<notin> fst ` set cs \<and> fst c \<noteq> [] \<and> CHR ''/'' \<notin> set (fst c) \<and> wellFormedNode cs"
  by (auto simp: wellFormedNode_def)

lemma wellFormedNode_name:
  "wellFormedNode cs \<Longrightarrow> (name, c) \<in> set cs \<Longrightarrow> name \<noteq> [] \<and> CHR ''/'' \<notin> set name"
  by (force simp: wellFormedNode_def)

lemma flattenChildren_keys:
  assumes "flattenChildren r n p cs = Inr m"
    and "\<forall>dg sub. r dg = Some sub \<longrightarrow> wellFormedNode sub"
    and "wellFormedNode cs"
    and "k \<in> dom m"
  shows "\<exists>name \<in> fst ` set cs. below (joinPath p name) k"
  using assms
proof (induction r n p cs arbitrary: m k rule: flattenChildren.induct)
  case (1 resolve depth path)
  then show ?case by auto
next
  case (2 resolve depth path name dg exec rest)
  then obtain m' where m': "flattenChildren resolve depth path rest = Inr m'"
    and m: "m = [joinPath path name \<mapsto> fileOutput dg] ++ m'"
    by (auto split: sum.splits)
  show ?case
  proof (cases "k \<in> dom m'")
    case True
    with 2 m' show ?thesis by (auto simp: wellFormedNode_Cons)
  next
    case False
    with "2.prems"(4) m have "k = joinPath path name" by (auto split: if_splits)
    then show ?thesis by (simp add: below_refl)
  qed
next
  case (3 resolve depth path name target rest)
  then obtain m' where m': "flattenChildren resolve depth path rest = Inr m'"
    and m: "m = [joinPath path name \<mapsto> symlinkOutput target] ++ m'"
    by (auto split: sum.splits)
  show ?case
  proof (cases "k \<in> dom m'")
    case True
    with 3 m' show ?thesis by (auto simp: wellFormedNode_Cons)
  next
    case False
    with "3.prems"(4) m have "k = joinPath path name" by (auto split: if_splits)
    then show ?thesis by (simp add: below_refl)
  qed
next
  case (4 resolve path name dg rest)
  then show ?case by simp
next
  case (5 resolve depth path name dg rest)
  from "5.prems"(1) obtain sub m1 m2 where sub: "resolve dg = Some sub"
    and m1: "(if sub = [] then Inr [joinPath path name \<mapsto> emptyDirOutput dg]
              else flattenChildren resolve depth (joinPath path name) sub) = Inr m1"
    and m2: "flattenChildren resolve (Suc depth) path rest = Inr m2"
    and m: "m = m1 ++ m2"
    by (auto split: option.splits sum.splits)
  have wfsub: "wellFormedNode sub" using sub "5.prems"(2) by blast
  have nm: "name \<noteq> []" and wfrest: "wellFormedNode rest"
    using "5.prems"(3) by (simp_all add: wellFormedNode_Cons)
  show ?case
  proof (cases "k \<in> dom m2")
    case True
    from "5.IH"(2) [OF sub m1 m2 "5.prems"(2) wfrest True]
    show ?thesis by auto
  next
    case False
    with "5.prems"(4) m have k1: "k \<in> dom m1" by auto
    have "below (joinPath path name) k"
    proof (cases "sub = []")
      case True
      with m1 k1 show ?thesis by (auto simp: below_refl split: if_splits)
    next
      case False
      with m1 have "flattenChildren resolve depth (joinPath path name) sub = Inr m1" by simp
      from "5.IH"(1) [OF sub False this "5.prems"(2) wfsub k1]
      obtain name' where "below (joinPath (joinPath path name) name') k" by blast
      then show ?thesis using below_joinPath [OF joinPath_nonempty [OF nm]] by blast
    qed
    then show ?thesis by auto
  qed
qed

lemma flattenChildren_Cons:
  "flattenChildren r n p ((name, c) # rest) =
     (case childEntries r n p name c of
        Inl err \<Rightarrow> Inl err
      | Inr m1 \<Rightarrow>
          (case flattenChildren r n p rest of
             Inl err \<Rightarrow> Inl err
           | Inr m2 \<Rightarrow> Inr (m1 ++ m2)))"
  by (cases c; cases n) (auto simp: childEntries_def flatten_def split: option.splits sum.splits)

lemma childEntries_keys:
  assumes "childEntries r n p name c = Inr m1"
    and "\<forall>dg sub. r dg = Some sub \<longrightarrow> wellFormedNode sub"
    and "name \<noteq> []"
    and "k \<in> dom m1"
  shows "below (joinPath p name) k"
proof (cases c)
  case (FileChild dg exec)
  with assms show ?thesis by (auto simp: childEntries_def below_refl split: if_splits)
next
  case (SymlinkChild target)
  with assms show ?thesis by (auto simp: childEntries_def below_refl split: if_splits)
next
  case (DirChild dg)
  with assms(1) obtain n' sub where n: "n = Suc n'" and sub: "r dg = Some sub"
    and fl: "flatten r n' (joinPath p name) dg sub = Inr m1"
    by (auto simp: childEntries_def split: nat.splits option.splits)
  show ?thesis
  proof (cases "sub = []")
    case True
    with fl assms(4) show ?thesis by (auto simp: flatten_def below_refl split: if_splits)
  next
    case False
    with fl have "flattenChildren r n' (joinPath p name) sub = Inr m1"
      by (simp add: flatten_def)
    from flattenChildren_keys [OF this assms(2) _ assms(4)] sub assms(2)
    obtain name' where "below (joinPath (joinPath p name) name') k" by blast
    then show ?thesis using below_joinPath [OF joinPath_nonempty [OF assms(3)]] by blast
  qed
qed

lemma flattenChildren_child:
  assumes "flattenChildren r n p cs = Inr m"
    and "\<forall>dg sub. r dg = Some sub \<longrightarrow> wellFormedNode sub"
    and "wellFormedNode cs"
    and "(name, c) \<in> set cs"
  shows "\<exists>m1. childEntries r n p name c = Inr m1 \<and>
              (\<forall>k. below (joinPath p name) k \<longrightarrow> m k = m1 k)"
  using assms(1,3,4)
proof (induction cs arbitrary: m)
  case Nil
  then show ?case by simp
next
  case (Cons hd rest)
  obtain name0 c0 where hd: "hd = (name0, c0)" by (cases hd)
  from Cons.prems(1) obtain m0 m2 where m0: "childEntries r n p name0 c0 = Inr m0"
    and m2: "flattenChildren r n p rest = Inr m2" and m: "m = m0 ++ m2"
    unfolding hd flattenChildren_Cons by (auto split: sum.splits)
  have wf0: "name0 \<notin> fst ` set rest" "name0 \<noteq> []" "CHR ''/'' \<notin> set name0"
    and wfrest: "wellFormedNode rest"
    using Cons.prems(2) by (simp_all add: wellFormedNode_Cons hd)
  have nm: "name \<noteq> []" "CHR ''/'' \<notin> set name"
    using wellFormedNode_name [OF Cons.prems(2) Cons.prems(3)] by simp_all
  show ?case
  proof (cases "(name, c) = hd")
    case True
    then have eq: "name = name0" "c = c0" using hd by simp_all
    have "m k = m0 k" if b: "below (joinPath p name) k" for k
    proof (cases "m2 k")
      case None
      then show ?thesis by (simp add: m map_add_def)
    next
      case (Some v)
      then have "k \<in> dom m2" by auto
      from flattenChildren_keys [OF m2 assms(2) wfrest this]
      obtain name2 c2 where n2: "(name2, c2) \<in> set rest" "below (joinPath p name2) k" by auto
      have "name2 \<noteq> [] \<and> CHR ''/'' \<notin> set name2"
        using wellFormedNode_name [OF wfrest n2(1)] .
      then have "name = name2" using below_separate [OF nm(2,1) _ _ b n2(2)] by simp
      then show ?thesis using wf0(1) n2(1) eq by force
    qed
    then show ?thesis using m0 eq by simp
  next
    case False
    then have inrest: "(name, c) \<in> set rest" using Cons.prems(3) by auto
    from Cons.IH [OF m2 wfrest inrest] obtain m1 where
      m1: "childEntries r n p name c = Inr m1"
        "\<And>k. below (joinPath p name) k \<Longrightarrow> m2 k = m1 k" by blast
    have "m k = m1 k" if b: "below (joinPath p name) k" for k
    proof (cases "m2 k")
      case (Some v)
      then show ?thesis using m1(2) [OF b] by (simp add: m map_add_def)
    next
      case None
      have "m0 k = None"
      proof (rule ccontr)
        assume "m0 k \<noteq> None"
        then have "k \<in> dom m0" by auto
        from childEntries_keys [OF m0 assms(2) wf0(2) this]
        have "name = name0" using below_separate [OF nm(2,1) wf0(3,2) b] by simp
        then show False using wf0(1) inrest by force
      qed
      then show ?thesis using None m1(2) [OF b] by (simp add: m map_add_def)
    qed
    then show ?thesis using m1(1) by blast
  qed
qed

lemma dirAt_wellFormed:
  assumes "dirAt r rootPath rootDg root path dg node" and "wellFormedTree r root"
  shows "wellFormedNode node"
  using assms by (induction rule: dirAt.induct) (auto simp: wellFormedTree_def)

lemma dirAt_embedded:
  assumes "dirAt r rootPath rootDg root path dg node"
    and "wellFormedTree r root"
    and "flatten r depth rootPath rootDg root = Inr m"
  shows "\<exists>n' m'. flatten r n' path dg node = Inr m' \<and>
           (\<forall>k. path = [] \<or> below path k \<longrightarrow> m k = m' k)"
  using assms
proof (induction rule: dirAt.induct)
  case dirAt_root
  then show ?case by blast
next
  case (dirAt_sub path dg node name dg' sub)
  then obtain n' mp where mp: "flatten r n' path dg node = Inr mp"
    and emb: "\<And>k. path = [] \<or> below path k \<Longrightarrow> m k = mp k"
    by blast
  have wfall: "\<forall>dg sub. r dg = Some sub \<longrightarrow> wellFormedNode sub"
    using dirAt_sub.prems(1) by (simp add: wellFormedTree_def)
  have wfnode: "wellFormedNode node"
    using dirAt_wellFormed [OF dirAt_sub.hyps(1) dirAt_sub.prems(1)] .
  have "node \<noteq> []" using dirAt_sub.hyps(2) by auto
  then have "flattenChildren r n' path node = Inr mp" using mp by (simp add: flatten_def)
  from flattenChildren_child [OF this wfall wfnode dirAt_sub.hyps(2)]
  obtain m1 where m1: "childEntries r n' path name (DirChild dg') = Inr m1"
    and sub: "\<And>k. below (joinPath path name) k \<Longrightarrow> mp k = m1 k" by blast
  from m1 dirAt_sub.hyps(3) obtain n'' where
    fl: "flatten r n'' (joinPath path name) dg' sub = Inr m1"
    by (auto simp: childEntries_def split: nat.splits)
  have nm: "name \<noteq> []" using wellFormedNode_name [OF wfnode dirAt_sub.hyps(2)] by simp
  have "m k = m1 k" if b: "below (joinPath path name) k" for k
  proof -
    have "path = [] \<or> below path k" using below_joinPath [OF _ b] by blast
    then show ?thesis using emb sub [OF b] by simp
  qed
  then show ?case using fl joinPath_nonempty [OF nm] by blast
qed


lemma writeOutputs_ok:
  assumes "set paths \<subseteq> dom outputs"
  shows "\<exists>outs. map outputs paths = map Some outs \<and>
           writeOutputs outputs paths
             = Inr (concat (map (\<lambda>(p, out). outputLine p out) (zip paths outs)))"
  using assms
proof (induction paths)
  case Nil
  then show ?case by simp
next
  case (Cons p paths)
  then obtain out where out: "outputs p = Some out" by auto
  from Cons obtain outs where outs: "map outputs paths = map Some outs"
    "writeOutputs outputs paths
       = Inr (concat (map (\<lambda>(p, out). outputLine p out) (zip paths outs)))"
    by auto
  show ?case using out outs by (intro exI [of _ "out # outs"]) simp
qed

lemma sort_enumeration:
  assumes "enumerates ks m" and "enumerates ks' m"
  shows "sort ks = sort ks'"
  using assms
  by (intro sorted_distinct_set_unique) (simp_all add: enumerates_def)


text \<open>
  Flattening succeeds when every reference resolves within the depth bound.
\<close>

lemma resolvesWithin_tail:
  "resolvesWithin r n (c # cs) \<Longrightarrow> resolvesWithin r n cs"
  by (cases n) auto

lemma flattenChildren_succeeds:
  "resolvesWithin r n cs \<Longrightarrow> \<exists>m. flattenChildren r n p cs = Inr m"
proof (induction r n p cs rule: flattenChildren.induct)
  case (1 resolve depth path)
  then show ?case by simp
next
  case (2 resolve depth path name dg exec rest)
  then show ?case using resolvesWithin_tail by fastforce
next
  case (3 resolve depth path name target rest)
  then show ?case using resolvesWithin_tail by fastforce
next
  case (4 resolve path name dg rest)
  then show ?case by simp
next
  case (5 resolve depth path name dg rest)
  from "5.prems" obtain sub where sub: "resolve dg = Some sub"
    and rs: "resolvesWithin resolve depth sub" by auto
  have "\<exists>m1. (if sub = [] then Inr [joinPath path name \<mapsto> emptyDirOutput dg]
              else flattenChildren resolve depth (joinPath path name) sub) = Inr m1"
  proof (cases "sub = []")
    case True
    then show ?thesis by simp
  next
    case False
    then show ?thesis using "5.IH"(1) [OF sub False rs] by simp
  qed
  then obtain m1 where
    m1: "(if sub = [] then Inr [joinPath path name \<mapsto> emptyDirOutput dg]
          else flattenChildren resolve depth (joinPath path name) sub) = Inr m1"
    by blast
  from "5.IH"(2) [OF sub m1 resolvesWithin_tail [OF "5.prems"]]
  obtain m2 where "flattenChildren resolve (Suc depth) path rest = Inr m2" by blast
  then show ?case using sub m1 by simp
qed

lemma FlattenTree_succeeds:
  assumes "resolvesWithin (resolveIn dgOf t) depth (Root t)"
  shows "\<exists>outputs. FlattenTree dgOf depth t rootPath = Inr outputs"
  using flattenChildren_succeeds [OF assms] by (auto simp: FlattenTree_def flatten_def)

text \<open>
  C3. When the tree flattens, the paths that \<open>flattenTree\<close> returns are all the paths of
  the flattened tree, each once, in the lexicographic order of strings; the listing is
  the lines of the entries in that order; and the result does not depend on the order in
  which the keys of the map were visited, so that flattening the same tree again gives
  the same result.
\<close>

theorem flattenTree_sorted_deterministic:
  assumes "FlattenTree (digestOf env) (maxDepth env) t [] = Inr outputs"
    and "enumerates (rangeOrder env outputs) outputs"
    and "enumerates (order' outputs) outputs"
  shows "\<exists>text paths outs.
           flattenTree env t = Inr (text, paths) \<and>
           sorted paths \<and> distinct paths \<and> set paths = dom outputs \<and>
           map outputs paths = map Some outs \<and>
           text = concat (map (\<lambda>(p, out). outputLine p out) (zip paths outs)) \<and>
           flattenTree (env \<lparr> rangeOrder := order' \<rparr>) t = flattenTree env t"
proof -
  let ?paths = "sort (rangeOrder env outputs)"
  have s: "sorted ?paths" "distinct ?paths" "set ?paths = dom outputs"
    using assms(2) by (simp_all add: enumerates_def)
  from writeOutputs_ok [of ?paths outputs] s(3) obtain outs where
    outs: "map outputs ?paths = map Some outs"
      "writeOutputs outputs ?paths
         = Inr (concat (map (\<lambda>(p, out). outputLine p out) (zip ?paths outs)))"
    by auto
  have same: "sort (order' outputs) = ?paths"
    using sort_enumeration [OF assms(3) assms(2)] .
  have "flattenTree env t
          = Inr (concat (map (\<lambda>(p, out). outputLine p out) (zip ?paths outs)), ?paths)"
    using assms(1) outs(2) by (simp add: flattenTree_def Let_def)
  moreover have "flattenTree (env \<lparr> rangeOrder := order' \<rparr>) t = flattenTree env t"
    using assms(1) same by (simp add: flattenTree_def Let_def)
  ultimately show ?thesis using s outs(1) by blast
qed


lemma exTree_flattens:
  "FlattenTree (digestOf exEnv) (maxDepth exEnv) exTree [] = Inr exOutputs"
  by (simp add: FlattenTree_def flatten_def exEnv_def exTree_def exRoot_def exOutputs_def
      eval_nat_numeral resolveIn_def exDigestOf_def joinPath_def map_add_def fun_eq_iff)

lemma exOutputs_enumerated:
  "enumerates [''c'', ''a.txt'', ''b''] exOutputs"
  "enumerates [''b'', ''c'', ''a.txt''] exOutputs"
  by (auto simp: enumerates_def exOutputs_def)

lemma exTree_wellFormed: "wellFormedTree (resolveIn (digestOf exEnv) exTree) (Root exTree)"
  by (auto simp: wellFormedTree_def wellFormedNode_def resolveIn_def exEnv_def exTree_def
      exRoot_def split: if_splits)

lemma exTree_listing:
  "flattenTree exEnv exTree =
     Inr (''a.txt: [File digest: d0/10]'' @ newline
          @ ''b: [Directory digest: /0]'' @ newline
          @ ''c: [Symlink digest: /0, Symlink Target: a.txt]'' @ newline,
          [''a.txt'', ''b'', ''c''])"
proof -
  have "rangeOrder exEnv exOutputs = [''c'', ''a.txt'', ''b'']" by (simp add: exEnv_def)
  then show ?thesis
    using exTree_flattens
    by (simp add: flattenTree_def outputLine_def exOutputs_def digestString_def showInt_def
        fileOutput_def emptyDirOutput_def symlinkOutput_def zeroDigest_def exFileDigest_def
        exDigestOf_def)
qed

text \<open>
  The example of the specification, whatever the order in which the map is visited: the
  listing names \<open>a.txt\<close>, \<open>b\<close> and \<open>c\<close> in that order.
\<close>

theorem flattenTree_sorted_deterministic_witness:
  "FlattenTree (digestOf exEnv) (maxDepth exEnv) exTree [] = Inr exOutputs \<and>
   enumerates (rangeOrder exEnv exOutputs) exOutputs \<and>
   enumerates [''b'', ''c'', ''a.txt''] exOutputs \<and>
   (\<exists>text paths outs.
      flattenTree exEnv exTree = Inr (text, paths) \<and>
      sorted paths \<and> distinct paths \<and> set paths = dom exOutputs \<and>
      map exOutputs paths = map Some outs \<and>
      text = concat (map (\<lambda>(p, out). outputLine p out) (zip paths outs)) \<and>
      flattenTree (exEnv \<lparr> rangeOrder := \<lambda>m. [''b'', ''c'', ''a.txt''] \<rparr>) exTree
        = flattenTree exEnv exTree) \<and>
   flattenTree exEnv exTree =
     Inr (''a.txt: [File digest: d0/10]'' @ newline
          @ ''b: [Directory digest: /0]'' @ newline
          @ ''c: [Symlink digest: /0, Symlink Target: a.txt]'' @ newline,
          [''a.txt'', ''b'', ''c''])"
proof -
  have e1: "enumerates (rangeOrder exEnv exOutputs) exOutputs"
    using exOutputs_enumerated(1) by (simp add: exEnv_def)
  have e2: "enumerates ((\<lambda>m. [''b'', ''c'', ''a.txt'']) exOutputs) exOutputs"
    using exOutputs_enumerated(2) by simp
  show ?thesis
    using flattenTree_sorted_deterministic [OF exTree_flattens e1 e2]
      exTree_flattens e1 exOutputs_enumerated(2) exTree_listing
    by blast
qed

lemma writeOutputs_line:
  assumes "writeOutputs outputs paths = Inr listing" and "p \<in> set paths"
    and "outputs p = Some out"
  shows "\<exists>pre post. listing = pre @ outputLine p out @ post"
  using assms
proof (induction paths arbitrary: listing)
  case Nil
  then show ?case by simp
next
  case (Cons q paths)
  then obtain o' rest where q: "outputs q = Some o'"
    and rest: "writeOutputs outputs paths = Inr rest"
    and listing: "listing = outputLine q o' @ rest"
    by (auto split: option.splits sum.splits)
  show ?case
  proof (cases "p = q")
    case True
    then show ?thesis
      using q listing Cons.prems(3) by (intro exI [of _ "[]"] exI [of _ rest]) auto
  next
    case False
    then have "p \<in> set paths" using Cons.prems(2) by simp
    from Cons.IH [OF rest this Cons.prems(3)] obtain pre post where
      "rest = pre @ outputLine p out @ post" by blast
    then show ?thesis
      using listing by (intro exI [of _ "outputLine q o' @ pre"] exI [of _ post]) auto
  qed
qed

lemma count_list_distinct: "distinct xs \<Longrightarrow> x \<in> set xs \<Longrightarrow> count_list xs x = 1"
  by (induction xs) auto

lemma flattenTree_entry:
  assumes "FlattenTree (digestOf env) (maxDepth env) t [] = Inr outputs"
    and "enumerates (rangeOrder env outputs) outputs"
    and "outputs p = Some out"
  shows "\<exists>text paths pre post.
           flattenTree env t = Inr (text, paths) \<and> count_list paths p = 1 \<and>
           text = pre @ outputLine p out @ post"
proof -
  let ?paths = "sort (rangeOrder env outputs)"
  have s: "distinct ?paths" "set ?paths = dom outputs"
    using assms(2) by (simp_all add: enumerates_def)
  then have p: "p \<in> set ?paths" using assms(3) by auto
  from writeOutputs_ok [of ?paths outputs] s(2) obtain listing where
    listing: "writeOutputs outputs ?paths = Inr listing" by auto
  have "flattenTree env t = Inr (listing, ?paths)"
    using assms(1) listing by (simp add: flattenTree_def Let_def)
  then show ?thesis
    using writeOutputs_line [OF listing p assms(3)] count_list_distinct [OF s(1) p] by blast
qed

text \<open>
  C6. In a well-formed tree that flattens, an empty directory at a path has the entry at
  that path, of kind empty-directory and with the directory's digest; the path occurs
  exactly once among the paths that \<open>flattenTree\<close> returns, and the listing holds the
  line of an empty directory for it.
\<close>

theorem empty_directory_preserved:
  assumes "FlattenTree (digestOf env) (maxDepth env) t [] = Inr outputs"
    and "wellFormedTree (resolveIn (digestOf env) t) (Root t)"
    and "dirAt (resolveIn (digestOf env) t) [] (digestOf env (Root t)) (Root t) path dg []"
    and "enumerates (rangeOrder env outputs) outputs"
  shows "outputs path = Some (emptyDirOutput dg) \<and>
         (\<exists>text paths pre post.
            flattenTree env t = Inr (text, paths) \<and> count_list paths path = 1 \<and>
            text = pre @ path @ '': [Directory digest: '' @ digestString dg @ '']''
                     @ newline @ post)"
proof -
  from dirAt_embedded [OF assms(3) assms(2)] assms(1)
  obtain n' m' where "flatten (resolveIn (digestOf env) t) n' path dg [] = Inr m'"
    and "\<And>k. path = [] \<or> below path k \<Longrightarrow> outputs k = m' k"
    unfolding FlattenTree_def by blast
  then have entry: "outputs path = Some (emptyDirOutput dg)"
    using below_refl [of path] by (auto simp: flatten_def)
  have "outputLine path (emptyDirOutput dg)
          = path @ '': [Directory digest: '' @ digestString dg @ '']'' @ newline"
    by (simp add: outputLine_def emptyDirOutput_def)
  then show ?thesis
    using entry flattenTree_entry [OF assms(1) assms(4) entry] by simp
qed

theorem empty_directory_preserved_witness:
  "FlattenTree (digestOf exEnv) (maxDepth exEnv) exTree [] = Inr exOutputs \<and>
   wellFormedTree (resolveIn (digestOf exEnv) exTree) (Root exTree) \<and>
   dirAt (resolveIn (digestOf exEnv) exTree) [] (digestOf exEnv (Root exTree)) (Root exTree)
     ''b'' (exDigestOf []) [] \<and>
   enumerates (rangeOrder exEnv exOutputs) exOutputs \<and>
   exOutputs ''b'' = Some (emptyDirOutput (exDigestOf [])) \<and>
   (\<exists>text paths pre post.
      flattenTree exEnv exTree = Inr (text, paths) \<and> count_list paths ''b'' = 1 \<and>
      text = pre @ ''b'' @ '': [Directory digest: '' @ digestString (exDigestOf []) @ '']''
               @ newline @ post)"
proof -
  have e1: "enumerates (rangeOrder exEnv exOutputs) exOutputs"
    using exOutputs_enumerated(1) by (simp add: exEnv_def)
  have "dirAt (resolveIn (digestOf exEnv) exTree) [] (digestOf exEnv (Root exTree))
          (Root exTree) (joinPath [] ''b'') (exDigestOf []) []"
    by (rule dirAt_sub [OF dirAt_root])
      (simp_all add: exTree_def exRoot_def resolveIn_def exEnv_def exDigestOf_def)
  then have d: "dirAt (resolveIn (digestOf exEnv) exTree) [] (digestOf exEnv (Root exTree))
          (Root exTree) ''b'' (exDigestOf []) []"
    by (simp add: joinPath_def)
  show ?thesis
    using empty_directory_preserved [OF exTree_flattens exTree_wellFormed d e1]
      exTree_flattens exTree_wellFormed d e1
    by blast
qed

text \<open>
  C7, as amended. In a well-formed tree that flattens, a symlink of a directory has the
  entry at its path that carries the target as it is written in the node, with no
  digest, whatever the target is: nothing is resolved through the target. When the
  target is not empty, the listing holds the symlink line of that entry, with the target
  unchanged.
\<close>

theorem symlink_target_literal:
  assumes "FlattenTree (digestOf env) (maxDepth env) t [] = Inr outputs"
    and "wellFormedTree (resolveIn (digestOf env) t) (Root t)"
    and "dirAt (resolveIn (digestOf env) t) [] (digestOf env (Root t)) (Root t) path dg node"
    and "(name, SymlinkChild target) \<in> set node"
    and "enumerates (rangeOrder env outputs) outputs"
  shows "outputs (joinPath path name)
           = Some \<lparr> Digest = zeroDigest, IsEmptyDirectory = False, SymlinkTarget = target \<rparr> \<and>
         (target \<noteq> [] \<longrightarrow>
            (\<exists>text paths pre post.
               flattenTree env t = Inr (text, paths) \<and>
               count_list paths (joinPath path name) = 1 \<and>
               text = pre @ joinPath path name @ '': [Symlink digest: ''
                        @ digestString zeroDigest @ '', Symlink Target: '' @ target @ '']''
                        @ newline @ post))"
proof -
  let ?r = "resolveIn (digestOf env) t"
  from dirAt_embedded [OF assms(3) assms(2)] assms(1)
  obtain n' m' where fl: "flatten ?r n' path dg node = Inr m'"
    and emb: "\<And>k. path = [] \<or> below path k \<Longrightarrow> outputs k = m' k"
    unfolding FlattenTree_def by blast
  have wfall: "\<forall>dg sub. ?r dg = Some sub \<longrightarrow> wellFormedNode sub"
    using assms(2) by (simp add: wellFormedTree_def)
  have wfnode: "wellFormedNode node" using dirAt_wellFormed [OF assms(3) assms(2)] .
  have "node \<noteq> []" using assms(4) by auto
  then have "flattenChildren ?r n' path node = Inr m'" using fl by (simp add: flatten_def)
  from flattenChildren_child [OF this wfall wfnode assms(4)]
  have "m' (joinPath path name) = Some (symlinkOutput target)"
    using below_refl [of "joinPath path name"] by (auto simp: childEntries_def)
  moreover have "path = [] \<or> below path (joinPath path name)"
    using below_joinPath [OF _ below_refl] by blast
  ultimately have entry: "outputs (joinPath path name) = Some (symlinkOutput target)"
    using emb by simp
  show ?thesis
  proof (intro conjI impI)
    show "outputs (joinPath path name)
            = Some \<lparr> Digest = zeroDigest, IsEmptyDirectory = False, SymlinkTarget = target \<rparr>"
      using entry by (simp add: symlinkOutput_def)
  next
    assume t: "target \<noteq> []"
    have line: "outputLine (joinPath path name) (symlinkOutput target)
          = joinPath path name @ '': [Symlink digest: '' @ digestString zeroDigest
              @ '', Symlink Target: '' @ target @ '']'' @ newline"
      using t by (simp add: outputLine_def symlinkOutput_def)
    from flattenTree_entry [OF assms(1) assms(5) entry]
    obtain listing paths pre post where
      r: "flattenTree env t = Inr (listing, paths)" "count_list paths (joinPath path name) = 1"
        "listing = pre @ outputLine (joinPath path name) (symlinkOutput target) @ post"
      by blast
    show "\<exists>text paths pre post.
            flattenTree env t = Inr (text, paths) \<and>
            count_list paths (joinPath path name) = 1 \<and>
            text = pre @ joinPath path name @ '': [Symlink digest: ''
                     @ digestString zeroDigest @ '', Symlink Target: '' @ target @ '']''
                     @ newline @ post"
      using r unfolding line
      by (intro exI [of _ listing] exI [of _ paths] exI [of _ pre] exI [of _ post]) simp
  qed
qed

theorem symlink_target_literal_witness:
  "FlattenTree (digestOf exEnv) (maxDepth exEnv) exTree [] = Inr exOutputs \<and>
   wellFormedTree (resolveIn (digestOf exEnv) exTree) (Root exTree) \<and>
   dirAt (resolveIn (digestOf exEnv) exTree) [] (digestOf exEnv (Root exTree)) (Root exTree)
     [] (digestOf exEnv (Root exTree)) (Root exTree) \<and>
   (''c'', SymlinkChild ''a.txt'') \<in> set (Root exTree) \<and>
   enumerates (rangeOrder exEnv exOutputs) exOutputs \<and> ''a.txt'' \<noteq> [] \<and>
   exOutputs ''c''
     = Some \<lparr> Digest = zeroDigest, IsEmptyDirectory = False, SymlinkTarget = ''a.txt'' \<rparr> \<and>
   (\<exists>text paths pre post.
      flattenTree exEnv exTree = Inr (text, paths) \<and> count_list paths ''c'' = 1 \<and>
      text = pre @ ''c'' @ '': [Symlink digest: '' @ digestString zeroDigest
               @ '', Symlink Target: '' @ ''a.txt'' @ '']'' @ newline @ post)"
proof -
  have e1: "enumerates (rangeOrder exEnv exOutputs) exOutputs"
    using exOutputs_enumerated(1) by (simp add: exEnv_def)
  have m: "(''c'', SymlinkChild ''a.txt'') \<in> set (Root exTree)"
    by (simp add: exTree_def exRoot_def)
  have j: "joinPath [] ''c'' = ''c''" by (simp add: joinPath_def)
  show ?thesis
    using symlink_target_literal [OF exTree_flattens exTree_wellFormed dirAt_root m e1]
      exTree_flattens exTree_wellFormed dirAt_root m e1
    unfolding j by simp
qed


text \<open>
  C7 as stated fails for a symlink whose target is empty: \<open>tool.go\<close> takes an entry for
  a symlink when its \<open>SymlinkTarget\<close> is not empty (line 360), so this one is listed
  with the file line.
\<close>

theorem symlink_empty_target_listed_as_file:
  "(''c'', SymlinkChild []) \<in> set (Root exLinkTree) \<and>
   FlattenTree (digestOf exLinkEnv) (maxDepth exLinkEnv) exLinkTree [] = Inr exLinkOutputs \<and>
   exLinkOutputs ''c'' = Some (symlinkOutput []) \<and>
   enumerates (rangeOrder exLinkEnv exLinkOutputs) exLinkOutputs \<and>
   flattenTree exLinkEnv exLinkTree = Inr (''c: [File digest: /0]'' @ newline, [''c''])"
proof -
  have f: "FlattenTree (digestOf exLinkEnv) (maxDepth exLinkEnv) exLinkTree [] = Inr exLinkOutputs"
    by (simp add: FlattenTree_def flatten_def exLinkEnv_def exEnv_def exLinkTree_def
        exLinkRoot_def exLinkOutputs_def joinPath_def)
  have r: "rangeOrder exLinkEnv exLinkOutputs = [''c'']"
    by (simp add: exLinkEnv_def)
  have "enumerates [''c''] exLinkOutputs"
    by (auto simp: enumerates_def exLinkOutputs_def)
  then have e: "enumerates (rangeOrder exLinkEnv exLinkOutputs) exLinkOutputs"
    by (simp only: r)
  have l: "flattenTree exLinkEnv exLinkTree = Inr (''c: [File digest: /0]'' @ newline, [''c''])"
    using f r
    by (simp add: flattenTree_def exLinkOutputs_def outputLine_def symlinkOutput_def
        zeroDigest_def digestString_def showInt_def)
  show ?thesis
    using f e l by (simp add: exLinkTree_def exLinkRoot_def exLinkOutputs_def)
qed

section \<open>Properties of the tool's operations\<close>

lemma flattenChildren_child_ok:
  assumes "flattenChildren r n p cs = Inr m" and "(name, c) \<in> set cs"
  shows "\<exists>m1. childEntries r n p name c = Inr m1"
  using assms
proof (induction cs arbitrary: m)
  case Nil
  then show ?case by simp
next
  case (Cons hd rest)
  obtain name0 c0 where hd: "hd = (name0, c0)" by (cases hd)
  from Cons.prems(1) obtain m0 m2 where "childEntries r n p name0 c0 = Inr m0"
    "flattenChildren r n p rest = Inr m2"
    unfolding hd flattenChildren_Cons by (auto split: sum.splits)
  then show ?case using Cons.IH Cons.prems(2) hd by auto
qed

lemma dirAt_flattens:
  assumes "dirAt r rootPath rootDg root path dg node"
    and "flatten r depth rootPath rootDg root = Inr m"
  shows "\<exists>n' m'. flatten r n' path dg node = Inr m'"
  using assms
proof (induction rule: dirAt.induct)
  case dirAt_root
  then show ?case by blast
next
  case (dirAt_sub path dg node name dg' sub)
  then obtain n' mp where mp: "flatten r n' path dg node = Inr mp" by blast
  have "node \<noteq> []" using dirAt_sub.hyps(2) by auto
  then have "flattenChildren r n' path node = Inr mp" using mp by (simp add: flatten_def)
  from flattenChildren_child_ok [OF this dirAt_sub.hyps(2)] dirAt_sub.hyps(3)
  show ?case by (auto simp: childEntries_def split: nat.splits)
qed

lemma dangling_fails:
  assumes "dirAt r rootPath rootDg root path dg node"
    and "(name, DirChild dg') \<in> set node" and "r dg' = None"
  shows "\<exists>err. flatten r depth rootPath rootDg root = Inl err"
proof (cases "flatten r depth rootPath rootDg root")
  case (Inl err)
  then show ?thesis by blast
next
  case (Inr m)
  from dirAt_flattens [OF assms(1) Inr] obtain n' m' where
    m': "flatten r n' path dg node = Inr m'" by blast
  have "node \<noteq> []" using assms(2) by auto
  then have "flattenChildren r n' path node = Inr m'" using m' by (simp add: flatten_def)
  from flattenChildren_child_ok [OF this assms(2)] assms(3)
  show ?thesis by (auto simp: childEntries_def split: nat.splits)
qed

lemma getInputTree_unresolvable:
  assumes "unresolvable env root"
  shows "\<exists>err. getInputTree env root w = (Inl err, w)
             \<or> getInputTree env root w = (Inl err, emit (EvRpc ''GetDirectoryTree'') w)"
proof (cases "NewFromProto env root")
  case (Inl err)
  then show ?thesis by (auto simp: getInputTree_def)
next
  case (Inr dg)
  from assms consider
      err where "rcGetDirectoryTree env root = Inl err"
    | "rcGetDirectoryTree env root = Inr []"
    | d0 ds path dg node name dg' where "rcGetDirectoryTree env root = Inr (d0 # ds)"
        "dirAt (resolveIn (digestOf env) \<lparr> Root = d0, Children = d0 # ds \<rparr>) []
           (digestOf env d0) d0 path dg node"
        "(name, DirChild dg') \<in> set node"
        "resolveIn (digestOf env) \<lparr> Root = d0, Children = d0 # ds \<rparr> dg' = None"
    unfolding unresolvable_def by blast
  then show ?thesis
  proof cases
    case 1
    then show ?thesis using Inr by (auto simp: getInputTree_def Let_def)
  next
    case 2
    then show ?thesis using Inr by (auto simp: getInputTree_def Let_def)
  next
    case 3
    from dangling_fails [OF 3(2,3,4), of "maxDepth env"]
    obtain err where "FlattenTree (digestOf env) (maxDepth env)
                        \<lparr> Root = d0, Children = d0 # ds \<rparr> [] = Inl err"
      by (auto simp: FlattenTree_def)
    then have "flattenTree env \<lparr> Root = d0, Children = d0 # ds \<rparr> = Inl err"
      by (simp add: flattenTree_def)
    then show ?thesis using Inr 3(1) by (auto simp: getInputTree_def Let_def)
  qed
qed

lemma trace_emit: "trace (emit ev w) = trace w @ [ev]"
  and fs_emit [simp]: "fs (emit ev w) = fs w"
  by (simp_all add: emit_def)

text \<open>
  C8. When the directory nodes behind the input root of an action cannot be resolved
  (the lookup fails, it yields no node, or a subdirectory's digest is not among the
  nodes), \<open>getInputTree\<close> fails, and so do \<open>ShowAction\<close> and \<open>ReexecuteAction\<close>:
  \<open>ReexecuteAction\<close> neither downloads an input tree nor runs the command, and the disk
  is as before.
\<close>

theorem unresolved_tree_fails:
  assumes "\<And>acDg action. NewFromString env actionDigest = Inr acDg \<Longrightarrow>
             rcReadAction env acDg = Inr action \<Longrightarrow> unresolvable env (InputRootDigest action)"
  shows "(\<forall>root. unresolvable env root \<longrightarrow> (\<exists>err w'. getInputTree env root w = (Inl err, w')))
       \<and> (\<exists>err w'. ShowAction env actionDigest w = (Inl err, w') \<and> fs w' = fs w)
       \<and> (\<exists>err w' evs. ReexecuteAction env actionDigest inputRoot w = (Some err, w') \<and>
             fs w' = fs w \<and> trace w' = trace w @ evs \<and>
             EvRpc ''Run'' \<notin> set evs \<and> EvRpc ''DownloadDirectory'' \<notin> set evs)"
proof (intro conjI allI impI)
  fix root
  assume "unresolvable env root"
  from getInputTree_unresolvable [OF this, of w]
  show "\<exists>err w'. getInputTree env root w = (Inl err, w')" by blast
next
  show "\<exists>err w'. ShowAction env actionDigest w = (Inl err, w') \<and> fs w' = fs w"
  proof (cases "getActionResult env actionDigest w")
    case (Pair r w1)
    then have w1: "fs w1 = fs w"
      by (auto simp: getActionResult_def Let_def fs_emit split: sum.splits option.splits)
    show ?thesis
    proof (cases r)
      case (Inl err)
      then show ?thesis using Pair w1 by (simp add: ShowAction_def)
    next
      case (Inr resPb)
      show ?thesis
      proof (cases "NewFromString env actionDigest")
        case (Inl err)
        then show ?thesis using Pair Inr w1 by (simp add: ShowAction_def)
      next
        case acDg: (Inr acDg)
        show ?thesis
        proof (cases "rcReadAction env acDg")
          case (Inl err)
          then show ?thesis using Pair Inr w1 acDg by (simp add: ShowAction_def Let_def fs_emit)
        next
          case action: (Inr action)
          from getInputTree_unresolvable [OF assms [OF acDg action]]
          have g: "\<exists>err w''. getInputTree env (InputRootDigest action) w' = (Inl err, w'') \<and>
                     fs w'' = fs w'" for w'
            by (metis fs_emit)
          show ?thesis
          proof (cases "NewFromProto env (CommandDigest action)")
            case (Inl err)
            then show ?thesis
              using Pair Inr w1 acDg action by (simp add: ShowAction_def Let_def fs_emit)
          next
            case cmdDg: (Inr cmdDg)
            show ?thesis
            proof (cases "rcReadCommand env cmdDg")
              case (Inl err)
              then show ?thesis
                using Pair Inr w1 acDg action cmdDg
                by (simp add: ShowAction_def Let_def fs_emit)
            next
              case cmd: (Inr commandProto)
              let ?w5 = "emit (EvInfo ''Fetching input tree from input root digest..'')
                          (emit (EvRpc ''ReadProto'')
                            (emit (EvInfo ''Reading command from action digest..'')
                              (emit (EvRpc ''ReadProto'') w1)))"
              from g [of ?w5] obtain err w'' where
                "getInputTree env (InputRootDigest action) ?w5 = (Inl err, w'')"
                "fs w'' = fs ?w5" by blast
              then show ?thesis
                using Pair Inr w1 acDg action cmdDg cmd
                by (simp add: ShowAction_def Let_def fs_emit)
            qed
          qed
        qed
      qed
    qed
  qed
next
  show "\<exists>err w' evs. ReexecuteAction env actionDigest inputRoot w = (Some err, w') \<and>
          fs w' = fs w \<and> trace w' = trace w @ evs \<and>
          EvRpc ''Run'' \<notin> set evs \<and> EvRpc ''DownloadDirectory'' \<notin> set evs"
  proof (cases "NewFromString env actionDigest")
    case (Inl err)
    then show ?thesis by (simp add: ReexecuteAction_def)
  next
    case acDg: (Inr acDg)
    show ?thesis
    proof (cases "rcReadAction env acDg")
      case (Inl err)
      then show ?thesis using acDg by (simp add: ReexecuteAction_def Let_def fs_emit trace_emit)
    next
      case action: (Inr action)
      note un = getInputTree_unresolvable [OF assms [OF acDg action]]
      show ?thesis
      proof (cases "NewFromProto env (CommandDigest action)")
        case (Inl err)
        then show ?thesis
          using acDg action by (simp add: ReexecuteAction_def Let_def fs_emit trace_emit)
      next
        case cmdDg: (Inr cmdDg)
        show ?thesis
        proof (cases "rcReadCommand env cmdDg")
          case (Inl err)
          then show ?thesis
            using acDg action cmdDg
            by (simp add: ReexecuteAction_def Let_def fs_emit trace_emit)
        next
          case cmd: (Inr commandProto)
          let ?w3 = "emit (EvRpc ''ReadProto'')
                      (emit (EvInfo ''Reading command from action digest..'')
                        (emit (EvRpc ''ReadProto'') w))"
          from un [of ?w3] obtain err where
            "getInputTree env (InputRootDigest action) ?w3 = (Inl err, ?w3)
             \<or> getInputTree env (InputRootDigest action) ?w3
                 = (Inl err, emit (EvRpc ''GetDirectoryTree'') ?w3)"
            by blast
          then show ?thesis
            using acDg action cmdDg cmd
            by (auto simp: ReexecuteAction_def Let_def fs_emit trace_emit)
        qed
      qed
    qed
  qed
qed

text \<open>The example remote side, evaluated.\<close>

lemma ex_parse:
  "NewFromString exEnv exActionString = Inr exActionDigest"
  "NewFromString exEnv exBlobString = Inr exBlobDigest"
  "NewFromString exEnv ''not-a-digest'' = Inl (MalformedDigest ''not-a-digest'')"
  by (simp_all add: exEnv_def parseDigest_def exActionString_def exBlobString_def exHash_def
      exActionDigest_def exBlobDigest_def isHexDigit_def isDigit_def readNat_def
      digitValue_def)

lemma ex_validate: "NewFromProto exEnv (Some exBlobDigest) = Inr exBlobDigest"
  by (simp add: exEnv_def exValidate_def exBlobDigest_def exHash_def isHexDigit_def)

lemma ex_remote:
  "rcCheckActionCache exEnv \<lparr> Hash = exHash, Size = 7 \<rparr> = Inr (Some exActionResult)"
  "rcReadAction exEnv d = Inr exAction"
  "rcReadCommand exEnv d = Inr exCommand"
  "rcGetDirectoryTree exEnv root = Inr []"
  "rcReadBlob exEnv d = ([], Some (RpcError ''unavailable''))"
  "rcReadBlobToFile exEnv d p f = (None, f(p \<mapsto> FileNode ''hello''))"
  "rcDownloadDirectory exEnv d p f = (Some (RpcError ''unavailable''), f)"
  "rcDownloadActionOutputs exEnv res p f = (Some (RpcError ''unavailable''), f)"
  "TempFile exEnv f = Inr ''/tmp/blob1''"
  by (simp_all add: exEnv_def exActionDigest_def)

lemma ex_blob_text: "digestString exBlobDigest = exBlobString"
  by (simp add: digestString_def exBlobDigest_def exBlobString_def showInt_def)

theorem unresolved_tree_fails_witness:
  "NewFromString exEnv exActionString = Inr exActionDigest \<and>
   rcReadAction exEnv exActionDigest = Inr exAction \<and>
   unresolvable exEnv (InputRootDigest exAction) \<and>
   unresolvable exEnv (Some exBlobDigest) \<and>
   (\<exists>err w'. getInputTree exEnv (Some exBlobDigest) exWorld = (Inl err, w')) \<and>
   (\<exists>err w'. ShowAction exEnv exActionString exWorld = (Inl err, w') \<and> fs w' = fs exWorld) \<and>
   (\<exists>err w' evs. ReexecuteAction exEnv exActionString [] exWorld = (Some err, w') \<and>
      fs w' = fs exWorld \<and> trace w' = trace exWorld @ evs \<and>
      EvRpc ''Run'' \<notin> set evs \<and> EvRpc ''DownloadDirectory'' \<notin> set evs) \<and>
   fst (ShowAction exEnv exActionString exWorld)
     = Inl (Errorf (''Empty directories returned by GetTree for '' @ exBlobString))"
proof -
  have u: "unresolvable exEnv root" for root
    by (simp add: unresolvable_def exEnv_def)
  have s: "fst (ShowAction exEnv exActionString exWorld)
     = Inl (Errorf (''Empty directories returned by GetTree for '' @ exBlobString))"
    using ex_parse(1) ex_validate
    by (simp add: ShowAction_def getActionResult_def getInputTree_def Let_def ex_remote
        exAction_def ex_blob_text exActionDigest_def)
  show ?thesis
    using unresolved_tree_fails [of exEnv exActionString exWorld "[]", OF u] u s
      ex_parse(1) ex_remote(2)
    by blast
qed



lemma parentDir_shorter:
  assumes "parentDir p = Some d"
  shows "length d < length p"
proof -
  let ?r = "dropWhile (\<lambda>c. c \<noteq> CHR ''/'') (rev p)"
  have in_p: "CHR ''/'' \<in> set p" and d: "d = rev (tl ?r)"
    using assms by (auto simp: parentDir_def split: if_splits)
  have "?r \<noteq> []" using in_p by (simp add: dropWhile_eq_Nil_conv)
  then have "length (tl ?r) < length ?r" by (cases ?r) simp_all
  moreover have "length ?r \<le> length (rev p)" by (rule length_dropWhile_le)
  ultimately show ?thesis using d by simp
qed

lemma underDir_length: "underDir d k \<Longrightarrow> length d \<le> length k"
  by (auto simp: underDir_def prefix_def split: if_splits)

lemma parentExists_removed:
  assumes "parentExists f p"
  shows "parentExists (\<lambda>k. if underDir p k then None else f k) p"
proof (cases "parentDir p")
  case None
  then show ?thesis by (simp add: parentExists_def)
next
  case (Some d)
  then have "\<not> underDir p d" using parentDir_shorter [OF Some] underDir_length [of p d] by auto
  then show ?thesis using assms Some by (auto simp: parentExists_def)
qed

lemma splitPath_nonempty: "splitPath p \<noteq> []"
  by (induction p) (auto split: list.splits)

lemma cleanPath_not_implicit:
  assumes "cleanPath p"
  shows "\<not> implicitDir p"
proof -
  obtain e es where "splitPath p = e # es" using splitPath_nonempty [of p] by (cases "splitPath p") auto
  then have "\<not> list_all (\<lambda>e. e = ''..'') (splitPath p)"
    using assms by (auto simp: cleanPath_def)
  then show ?thesis using assms by (auto simp: cleanPath_def implicitDir_def endsWithDot_def)
qed

lemma RemoveAll_clean:
  assumes "cleanPath p"
  shows "RemoveAll p f = (None, (\<lambda>k. if underDir p k then None else f k))"
  using assms by (simp add: RemoveAll_def cleanPath_def)

lemma cleanDir_result:
  assumes "cleanPath p" and "parentExists f p"
  shows "cleanDir p f = (\<lambda>k. if k = p then Some DirNode else if underDir p k then None else f k)"
proof -
  let ?g = "\<lambda>k. if underDir p k then None else f k"
  have c: "Clean p = p" "p \<noteq> []" using assms(1) by (simp_all add: cleanPath_def)
  have "?g p = None" by (simp add: underDir_def)
  then have "Mkdir p ?g = (None, ?g(p \<mapsto> DirNode))"
    using c cleanPath_not_implicit [OF assms(1)] parentExists_removed [OF assms(2)]
    by (simp add: Mkdir_def Let_def)
  then show ?thesis
    by (auto simp: cleanDir_def RemoveAll_clean [OF assms(1)] fun_eq_iff)
qed




text \<open>
  Why the destination must be a clean path: \<open>os.RemoveAll\<close> refuses a path that ends
  in a dot, and \<open>os.Mkdir\<close> then finds the directory present; the two errors are
  discarded and the contents stay.
\<close>

lemma cleanDir_final_dot:
  "cleanDir ''/out/.'' exFS ''/out/keep.txt'' = Some (FileNode ''data'')"
  by (simp add: cleanDir_def RemoveAll_def Mkdir_def endsWithDot_def suffix_def exFS_def
      Clean_def pushElement_def Let_def)



lemma ex_parentExists: "parentExists f ''/out''"
  by (simp add: parentExists_def parentDir_def)

lemma ex_cleanPath: "cleanPath ''/out''"
  by (simp add: cleanPath_def Clean_def pushElement_def endsWithDot_def suffix_def)




lemma ex_cleanDir:
  "cleanDir ''/out'' exFS ''/out'' = Some DirNode"
  "cleanDir ''/out'' exFS ''/out/keep.txt'' = None"
  by (simp_all add: cleanDir_result [OF ex_cleanPath ex_parentExists] underDir_def)


lemma trace_removeAll_mkdir:
  "trace (removeAll p w) = trace w @ [EvRemoveAll p]"
  "trace (mkdir p w) = trace w @ [EvMkdir p]"
  "trace (remove p w) = trace w @ [EvRemove p]"
  "fs (removeAll p w) = snd (RemoveAll p (fs w))"
  "fs (mkdir p w) = snd (Mkdir p (fs w))"
  "fs (remove p w) = snd (Remove p (fs w))"
  by (simp_all add: removeAll_def mkdir_def remove_def emit_def)

text \<open>
  The operations that check the digest first: with a malformed digest they return the
  parser's error and have done nothing.
\<close>

lemma malformed_digest_checked_first:
  assumes "NewFromString env s = Inl err"
  shows "ReexecuteAction env s inputRoot w = (Some err, w)"
    and "DownloadActionResult env s pathPrefix ks w = (Some err, w)"
    and "ShowAction env s w = (Inl err, w)"
    and "path \<noteq> [] \<Longrightarrow> DownloadBlob env s path w = (Inl err, w)"
  using assms
  by (simp_all add: ReexecuteAction_def DownloadActionResult_def ShowAction_def
      getActionResult_def DownloadBlob_def downloadBlobTo_def)

text \<open>
  C1. \<open>DownloadDirectory\<close> parses the digest at line 222, after \<open>os.RemoveAll\<close> and
  \<open>os.Mkdir\<close>: called with a malformed digest on the example disk it returns the
  parser's error, and the file below \<open>/out\<close> has been deleted. \<open>DownloadBlob\<close> with an
  empty path parses the digest at line 198, after it has created the temporary file,
  which the deferred call then removes.
\<close>

theorem DownloadDirectory_malformed_digest_cleans:
  "NewFromString exEnv ''not-a-digest'' = Inl (MalformedDigest ''not-a-digest'') \<and>
   fs exWorld ''/out/keep.txt'' = Some (FileNode ''data'') \<and>
   fst (DownloadDirectory exEnv ''not-a-digest'' ''/out'' exWorld)
     = Some (MalformedDigest ''not-a-digest'') \<and>
   fs (snd (DownloadDirectory exEnv ''not-a-digest'' ''/out'' exWorld)) ''/out/keep.txt'' = None \<and>
   filter isActivity (trace (snd (DownloadDirectory exEnv ''not-a-digest'' ''/out'' exWorld)))
     = [EvRemoveAll ''/out'', EvMkdir ''/out''] \<and>
   fst (DownloadBlob exEnv ''not-a-digest'' [] exWorld) = Inl (MalformedDigest ''not-a-digest'') \<and>
   filter isActivity (trace (snd (DownloadBlob exEnv ''not-a-digest'' [] exWorld)))
     = [EvTempFile, EvRemove ''/tmp/blob1'']"
proof -
  have "DownloadDirectory exEnv ''not-a-digest'' ''/out'' exWorld
          = (Some (MalformedDigest ''not-a-digest''),
             mkdir ''/out'' (removeAll ''/out''
               (emit (EvInfo ''Cleaning contents of /out.'') exWorld)))"
    using ex_parse(3) by (simp add: DownloadDirectory_def Let_def)
  moreover have "DownloadBlob exEnv ''not-a-digest'' [] exWorld
          = (Inl (MalformedDigest ''not-a-digest''),
             remove ''/tmp/blob1''
               ((emit EvTempFile exWorld)
                  \<lparr> fs := (fs exWorld)(''/tmp/blob1'' \<mapsto> FileNode []) \<rparr>))"
    using ex_parse(3) by (simp add: DownloadBlob_def downloadBlobTo_def Let_def ex_remote)
  ultimately show ?thesis
    using ex_parse(3) ex_cleanDir(2)
    by (simp add: trace_removeAll_mkdir trace_emit exWorld_def exFS_def cleanDir_def)
qed




















text \<open>
  C10. For a well-formed digest: with a path, when the download to that path succeeds,
  \<open>DownloadBlob\<close> returns the empty string and leaves the disk as the download left it;
  with the empty path, when a temporary file is created and the download to it succeeds,
  \<open>DownloadBlob\<close> returns the whole contents of that file and removes it.
\<close>

theorem DownloadBlob_result:
  assumes "NewFromString env blobDigest = Inr dg"
  shows "(\<forall>f'. path \<noteq> [] \<and> rcReadBlobToFile env dg path (fs w) = (None, f') \<longrightarrow>
            fst (DownloadBlob env blobDigest path w) = Inr [] \<and>
            fs (snd (DownloadBlob env blobDigest path w)) = f')
       \<and> (\<forall>tmp f' content.
            TempFile env (fs w) = Inr tmp \<and>
            rcReadBlobToFile env dg tmp ((fs w)(tmp \<mapsto> FileNode [])) = (None, f') \<and>
            f' tmp = Some (FileNode content) \<longrightarrow>
            fst (DownloadBlob env blobDigest [] w) = Inr content \<and>
            fs (snd (DownloadBlob env blobDigest [] w)) = f'(tmp := None))"
proof (intro conjI; intro allI impI)
  fix f'
  assume a: "path \<noteq> [] \<and> rcReadBlobToFile env dg path (fs w) = (None, f')"
  then have "DownloadBlob env blobDigest path w
               = (Inr [], (emit (EvRpc ''ReadBlobToFile'')
                    (emit (EvInfo (''Downloading blob of '' @ digestString dg @ '' to ''
                                     @ path @ ''.'')) w)) \<lparr> fs := f' \<rparr>)"
    using assms by (simp add: DownloadBlob_def downloadBlobTo_def Let_def)
  then show "fst (DownloadBlob env blobDigest path w) = Inr [] \<and>
             fs (snd (DownloadBlob env blobDigest path w)) = f'"
    by simp
next
  fix tmp f' content
  assume a: "TempFile env (fs w) = Inr tmp \<and>
             rcReadBlobToFile env dg tmp ((fs w)(tmp \<mapsto> FileNode [])) = (None, f') \<and>
             f' tmp = Some (FileNode content)"
  let ?w2 = "(emit EvTempFile w) \<lparr> fs := (fs w)(tmp \<mapsto> FileNode []) \<rparr>"
  let ?w4 = "emit (EvReadFile tmp)
               ((emit (EvRpc ''ReadBlobToFile'')
                   (emit (EvInfo (''Downloading blob of '' @ digestString dg @ '' to ''
                                    @ tmp @ ''.'')) ?w2)) \<lparr> fs := f' \<rparr>)"
  have "downloadBlobTo env blobDigest tmp True ?w2 = (Inr content, ?w4)"
    using assms a by (simp add: downloadBlobTo_def Let_def ReadFileFS_def)
  then have "DownloadBlob env blobDigest [] w = (Inr content, remove tmp ?w4)"
    using a by (simp add: DownloadBlob_def Let_def)
  then show "fst (DownloadBlob env blobDigest [] w) = Inr content \<and>
             fs (snd (DownloadBlob env blobDigest [] w)) = f'(tmp := None)"
    using a by (simp add: trace_removeAll_mkdir Remove_def)
qed

theorem DownloadBlob_result_witness:
  "NewFromString exEnv exBlobString = Inr exBlobDigest \<and>
   ''/out/blob'' \<noteq> [] \<and>
   rcReadBlobToFile exEnv exBlobDigest ''/out/blob'' (fs exWorld)
     = (None, (fs exWorld)(''/out/blob'' \<mapsto> FileNode ''hello'')) \<and>
   fst (DownloadBlob exEnv exBlobString ''/out/blob'' exWorld) = Inr [] \<and>
   fs (snd (DownloadBlob exEnv exBlobString ''/out/blob'' exWorld)) ''/out/blob''
     = Some (FileNode ''hello'') \<and>
   TempFile exEnv (fs exWorld) = Inr ''/tmp/blob1'' \<and>
   fst (DownloadBlob exEnv exBlobString [] exWorld) = Inr ''hello'' \<and>
   fs (snd (DownloadBlob exEnv exBlobString [] exWorld)) ''/tmp/blob1'' = None"
proof -
  note t = DownloadBlob_result [OF ex_parse(2), of "''/out/blob''" exWorld]
  have p: "''/out/blob'' \<noteq> [] \<and>
           rcReadBlobToFile exEnv exBlobDigest ''/out/blob'' (fs exWorld)
             = (None, (fs exWorld)(''/out/blob'' \<mapsto> FileNode ''hello''))"
    by (simp add: ex_remote)
  have q: "TempFile exEnv (fs exWorld) = Inr ''/tmp/blob1'' \<and>
           rcReadBlobToFile exEnv exBlobDigest ''/tmp/blob1''
               ((fs exWorld)(''/tmp/blob1'' \<mapsto> FileNode []))
             = (None, (fs exWorld)(''/tmp/blob1'' \<mapsto> FileNode ''hello'')) \<and>
           ((fs exWorld)(''/tmp/blob1'' \<mapsto> FileNode ''hello'')) ''/tmp/blob1''
             = Some (FileNode ''hello'')"
    by (simp add: ex_remote)
  from t p have r1: "fst (DownloadBlob exEnv exBlobString ''/out/blob'' exWorld) = Inr [] \<and>
      fs (snd (DownloadBlob exEnv exBlobString ''/out/blob'' exWorld))
        = (fs exWorld)(''/out/blob'' \<mapsto> FileNode ''hello'')"
    by blast
  from t q have r2: "fst (DownloadBlob exEnv exBlobString [] exWorld) = Inr ''hello'' \<and>
      fs (snd (DownloadBlob exEnv exBlobString [] exWorld))
        = ((fs exWorld)(''/tmp/blob1'' \<mapsto> FileNode ''hello''))(''/tmp/blob1'' := None)"
    by blast
  show ?thesis using ex_parse(2) p q r1 r2 by simp
qed



end
